theory Spec2Isabelle
  imports Complex_Main "HOL-Library.Word"
begin

section \<open>s3gof3r: a shallow embedding of the getter pipeline and its controllers\<close>

text \<open>
  The development follows the Go sources: \<^verbatim>\<open>getter.go\<close> and the current revision of
  \<^verbatim>\<open>s3gof3r.go\<close> (both in \<^verbatim>\<open>src/unnamed/part_000\<close>), \<^verbatim>\<open>src/util.go\<close>, and the
  earlier revision of \<^verbatim>\<open>s3gof3r.go\<close> kept in \<^verbatim>\<open>src/s3gof3r.go\<close>.  Go's \<^verbatim>\<open>int\<close> is
  taken to be 64 bits wide.
\<close>

subsection \<open>Machine integers\<close>

text \<open>
  An \<^verbatim>\<open>int64\<close> is an \<^typ>\<open>int\<close> in the range of \<open>is_int64\<close>; arithmetic that can leave
  the range is wrapped by \<open>wrap64\<close> (two's complement, as Go defines signed overflow).
  Go's \<^verbatim>\<open>/\<close> truncates towards zero (\<open>quo64\<close>); \<^verbatim>\<open>uint\<close> counters wrap modulo \<open>2^64\<close>.
\<close>

definition is_int64 :: "int \<Rightarrow> bool" where
  "is_int64 x \<longleftrightarrow> - (2 ^ 63) \<le> x \<and> x < 2 ^ 63"

definition wrap64 :: "int \<Rightarrow> int" where
  "wrap64 x = (x + 2 ^ 63) mod 2 ^ 64 - 2 ^ 63"

definition quo64 :: "int \<Rightarrow> int \<Rightarrow> int" where
  "quo64 a b = wrap64 (sgn a * sgn b * (\<bar>a\<bar> div \<bar>b\<bar>))"

definition uint_inc :: "nat \<Rightarrow> nat" where
  "uint_inc n = (n + 1) mod 2 ^ 64"

definition uint_dec :: "nat \<Rightarrow> nat" where
  "uint_dec n = (n + 2 ^ 64 - 1) mod 2 ^ 64"

text \<open>\<^verbatim>\<open>util.go\<close>, lines 26--52.\<close>

definition min64 :: "int \<Rightarrow> int \<Rightarrow> int" where
  "min64 a b = (if a < b then a else b)"

definition max64 :: "int \<Rightarrow> int \<Rightarrow> int" where
  "max64 a b = (if a > b then a else b)"

definition max_int :: "int \<Rightarrow> int \<Rightarrow> int" where
  "max_int a b = (if a > b then a else b)"

subsection \<open>Errors, results and formatting\<close>

text \<open>
  Go errors are values of \<open>error\<close>: the sentinels the code compares against, the
  structured HTTP error of \<^verbatim>\<open>newRespError\<close> (status and message), and
  \<^verbatim>\<open>errors.New\<close> / \<^verbatim>\<open>fmt.Errorf\<close> values, identified by their message.  A call either
  returns, never returns (\<open>Blocked\<close>: a channel operation nobody completes), or panics.
\<close>

datatype error =
    EINVAL
  | EOF
  | ErrUnexpectedEOF
  | ErrStopped
  | ErrStillAlive
  | RespError int string
  | ErrorString string

datatype 'a result = Return 'a | Blocked | Panic string

text \<open>The verb \<^verbatim>\<open>%d\<close> of \<^verbatim>\<open>fmt\<close>: decimal digits, a minus sign for a negative number.\<close>

fun digits10 :: "nat \<Rightarrow> string" where
  "digits10 n =
     (if n < 10 then [''0123456789'' ! n]
      else digits10 (n div 10) @ [''0123456789'' ! (n mod 10)])"

definition fmt_d :: "int \<Rightarrow> string" where
  "fmt_d i = (if i < 0 then CHR ''-'' # digits10 (nat (- i)) else digits10 (nat i))"

text \<open>
  The verb \<^verbatim>\<open>%q\<close>, for text that needs no escape: the text in double quotes.  \<open>Error\<close>
  is the method \<^verbatim>\<open>Error()\<close>; for a \<^verbatim>\<open>RespError\<close> it is lines 73--79 of \<^verbatim>\<open>util.go\<close>.
\<close>

definition fmt_q :: "string \<Rightarrow> string" where
  "fmt_q s = CHR 0x22 # s @ [CHR 0x22]"

fun Error :: "error \<Rightarrow> string" where
  "Error EINVAL = ''invalid argument''"
| "Error EOF = ''EOF''"
| "Error ErrUnexpectedEOF = ''unexpected EOF''"
| "Error ErrStopped = ''Stopped''"
| "Error ErrStillAlive = ''tomb: still alive''"
| "Error (RespError status msg) = fmt_d status @ '': '' @ fmt_q msg"
| "Error (ErrorString s) = s"

subsection \<open>The tracked reader (\<^verbatim>\<open>util.go\<close>, lines 91--126)\<close>

text \<open>
  \<^verbatim>\<open>readerWrapper\<close> embeds an \<^verbatim>\<open>io.Reader\<close> and holds pointers to a flag and a counter;
  the record holds the pointees and the bytes the wrapped source still has.
\<close>

type_synonym byte = "8 word"

record readerWrapper =
  Reader :: "byte list"
  closed_rw :: bool
  bytesdone :: int

definition newReaderWrapper :: "byte list \<Rightarrow> readerWrapper" where
  "newReaderWrapper r = \<lparr>Reader = r, closed_rw = False, bytesdone = 0\<rparr>"

definition ForceClose :: "readerWrapper \<Rightarrow> readerWrapper" where
  "ForceClose r = r\<lparr>closed_rw := True\<rparr>"

definition BytesDone :: "readerWrapper \<Rightarrow> int" where
  "BytesDone r = bytesdone r"

text \<open>
  \<^verbatim>\<open>readerWrapper.Seek\<close> (lines 113--117).  The selector \<^verbatim>\<open>r.Seek\<close> in its body is the
  method itself: \<^verbatim>\<open>io.Reader\<close> has no \<^verbatim>\<open>Seek\<close>, and a method of the wrapper shadows
  any promoted one.  The call is therefore a recursive call with the same arguments.
\<close>

partial_function (option) Seek ::
  "readerWrapper \<Rightarrow> int \<Rightarrow> int \<Rightarrow> (readerWrapper \<times> int \<times> error option) option" where
  "Seek r offset whence =
     Option.bind (Seek r offset whence)
       (\<lambda>(r', abs_off, e). Some (r'\<lparr>bytesdone := abs_off\<rparr>, abs_off, e))"

text \<open>
  The sibling \<^verbatim>\<open>seekReaderWrapper.Seek\<close> (lines 150--154) names the embedded field:
  \<^verbatim>\<open>r.ReadSeeker.Seek(offset, whence)\<close>.  The wrapped \<^verbatim>\<open>io.ReadSeeker\<close> is a parameter
  \<open>seek\<close> returning the new absolute offset and an error.
\<close>

record seekReaderWrapper =
  closed_srw :: bool
  bytesdone_srw :: int

definition Seek_srw ::
  "(int \<Rightarrow> int \<Rightarrow> int \<times> error option) \<Rightarrow> seekReaderWrapper \<Rightarrow> int \<Rightarrow> int
     \<Rightarrow> (seekReaderWrapper \<times> int \<times> error option) option" where
  "Seek_srw seek r offset whence =
     (case seek offset whence of (abs_off, e) \<Rightarrow> Some (r\<lparr>bytesdone_srw := abs_off\<rparr>, abs_off, e))"

subsection \<open>The speed tracker (\<^verbatim>\<open>util.go\<close>, lines 165--189)\<close>

text \<open>
  Times are nanoseconds.  The two floating-point computations are parameters:
  \<open>rate newBytes elapsed\<close> stands for
  \<^verbatim>\<open>int64(float64(newBytes) / elapsed.Seconds())\<close> and \<open>avg existing new\<close> for
  \<^verbatim>\<open>rollingAvg(existing, new)\<close>.  What \<^verbatim>\<open>update\<close> reads and writes is exact.
\<close>

record speedTracker =
  Speed :: int
  lastTime :: int
  lastDone :: int

definition newSpeedTracker :: "int \<Rightarrow> speedTracker" where
  "newSpeedTracker now = \<lparr>Speed = 0, lastTime = now, lastDone = 0\<rparr>"

definition update_newBytes :: "speedTracker \<Rightarrow> int \<Rightarrow> int" where
  "update_newBytes s bytesNow = wrap64 (bytesNow - lastDone s)"

definition update_elapsed :: "speedTracker \<Rightarrow> int \<Rightarrow> int" where
  "update_elapsed s timeNow = timeNow - lastTime s"

definition update ::
  "(int \<Rightarrow> int \<Rightarrow> int) \<Rightarrow> (int \<Rightarrow> int \<Rightarrow> int) \<Rightarrow> speedTracker \<Rightarrow> int \<Rightarrow> int
     \<Rightarrow> speedTracker \<times> int" where
  "update rate avg s bytesNow timeNow =
     (let newBytes = update_newBytes s bytesNow;
          elapsed = update_elapsed s timeNow;
          newSpeed = rate newBytes elapsed;
          s' = s\<lparr>Speed := avg (Speed s) newSpeed\<rparr>
      in (s', Speed s'))"

subsection \<open>The getter (\<^verbatim>\<open>getter.go\<close>, in \<^verbatim>\<open>src/unnamed/part_000\<close>)\<close>

text \<open>
  \<^verbatim>\<open>Config\<close> (lines 564--573), \<^verbatim>\<open>chunk\<close> (lines 54--61) and \<^verbatim>\<open>getter\<close> (lines 23--52).
  A nil slice is the empty list; a buffer's capacity is its length.  The channels and
  locks of the getter have no field here: what arrives on them is an input of the
  functions below.  \<open>sp_give\<close> lists the buffers handed back to the pool, \<open>sp_quit\<close>
  and \<open>quit\<close> say whether those channels are closed, and \<open>md5\<close> is the byte stream
  written to the hash so far.
\<close>

record Config =
  Concurrency :: int
  PartSize :: int
  NTry :: int
  Md5Check :: bool

type_synonym header = "(string \<times> string list) list"

record chunk =
  c_id :: int
  c_header :: header
  c_start :: int
  c_size :: int
  c_b :: "byte list"
  c_rwrapper :: "readerWrapper option"

record getter =
  url :: string
  bufsz :: int
  err :: "error option"
  chunkID :: int
  rChunk :: "chunk option"
  contentLen :: int
  bytesRead :: int
  chunkTotal :: int
  qWait :: "int \<rightharpoonup> chunk"
  qWaitLen :: nat
  activeChunks :: "int \<rightharpoonup> chunk"
  sp_give :: "byte list list"
  sp_quit :: bool
  quit :: bool
  closed_g :: bool
  conf :: Config
  md5 :: "byte list"
  cIdx :: int

definition qWaitMax :: nat where
  "qWaitMax = 2"

text \<open>
  What the \<^verbatim>\<open>select\<close> of \<^verbatim>\<open>nextChunk\<close> sees each time it waits: a chunk sent by a worker
  on \<^verbatim>\<open>readCh\<close>, or the closed \<^verbatim>\<open>quit\<close> channel.  When the list is used up nothing
  arrives any more and the call stays blocked.
\<close>

datatype event = Recv chunk | Quit

text \<open>
  \<^verbatim>\<open>nextChunk\<close> (lines 388--416).  \<open>takeChunk\<close> is the branch \<^verbatim>\<open>c != nil\<close>; the slice
  \<^verbatim>\<open>c.b[:c.size]\<close> panics outside \<open>0 \<le> size \<le> cap\<close>, and \<^verbatim>\<open>hash.Hash.Write\<close> never
  returns an error.
\<close>

definition takeChunk ::
  "getter \<Rightarrow> chunk \<Rightarrow> event list
     \<Rightarrow> (getter \<times> (chunk option \<times> error option) \<times> event list) result" where
  "takeChunk g c evs =
     (let g1 = g\<lparr>qWait := (qWait g)(chunkID g := None), qWaitLen := uint_dec (qWaitLen g)\<rparr>
      in if Md5Check (conf g1) then
           (if 0 \<le> c_size c \<and> c_size c \<le> int (length (c_b c))
            then Return (g1\<lparr>md5 := md5 g1 @ take (nat (c_size c)) (c_b c)\<rparr>, (Some c, None), evs)
            else Panic ''slice bounds out of range'')
         else Return (g1, (Some c, None), evs))"

fun nextChunk ::
  "getter \<Rightarrow> event list \<Rightarrow> (getter \<times> (chunk option \<times> error option) \<times> event list) result" where
  "nextChunk g [] =
     (case qWait g (chunkID g) of
        Some c \<Rightarrow> takeChunk g c []
      | None \<Rightarrow> Blocked)"
| "nextChunk g (ev # evs) =
     (case qWait g (chunkID g) of
        Some c \<Rightarrow> takeChunk g c (ev # evs)
      | None \<Rightarrow>
          (case ev of
             Recv c \<Rightarrow>
               nextChunk (g\<lparr>qWait := (qWait g)(c_id c \<mapsto> c), qWaitLen := uint_inc (qWaitLen g)\<rparr>) evs
           | Quit \<Rightarrow> Return (g, (None, err g), evs)))"

text \<open>
  \<^verbatim>\<open>Read\<close> (lines 338--386).  \<open>load_rChunk\<close> is lines 363--369, \<open>copy_out\<close> lines
  371--383: the \<^verbatim>\<open>copy\<close> into \<^verbatim>\<open>p[nw:]\<close>, the counters, and the hand-back of a finished
  chunk.  The slice \<^verbatim>\<open>b[cIdx:size]\<close> panics outside \<open>0 \<le> cIdx \<le> size \<le> cap\<close>, and
  \<^verbatim>\<open>g.rChunk.b\<close> panics on a nil chunk.  \<open>cIdx + n\<close> does not exceed \<open>size\<close> and
  \<open>chunkID + 1\<close> does not exceed \<open>chunkTotal\<close>, so only \<open>bytesRead\<close> is wrapped.
\<close>

definition load_rChunk ::
  "getter \<Rightarrow> event list \<Rightarrow> (getter \<times> error option \<times> event list) result" where
  "load_rChunk g evs =
     (if rChunk g = None then
        (case nextChunk g evs of
           Blocked \<Rightarrow> Blocked
         | Panic m \<Rightarrow> Panic m
         | Return (g1, (c, e), evs1) \<Rightarrow>
             (case e of
                Some e1 \<Rightarrow> Return (g1\<lparr>rChunk := c\<rparr>, Some e1, evs1)
              | None \<Rightarrow> Return (g1\<lparr>rChunk := c, cIdx := 0\<rparr>, None, evs1)))
      else Return (g, None, evs))"

definition copy_out :: "getter \<Rightarrow> chunk \<Rightarrow> byte list \<Rightarrow> nat \<Rightarrow> getter \<times> byte list \<times> nat" where
  "copy_out g c p nw =
     (let n = min (length p - nw) (nat (c_size c - cIdx g));
          p1 = take nw p @ take n (drop (nat (cIdx g)) (c_b c)) @ drop (nw + n) p;
          g1 = g\<lparr>cIdx := cIdx g + int n, bytesRead := wrap64 (bytesRead g + int n)\<rparr>;
          g2 = (if cIdx g1 \<ge> c_size c
                then g1\<lparr>activeChunks := (activeChunks g1)(c_id c := None),
                        sp_give := sp_give g1 @ [c_b c],
                        chunkID := chunkID g1 + 1,
                        rChunk := None\<rparr>
                else g1)
      in (g2, p1, nw + n))"

definition too_many_bytes :: "getter \<Rightarrow> error" where
  "too_many_bytes g =
     ErrorString (''Expected '' @ fmt_d (contentLen g) @ '' bytes, received ''
       @ fmt_d (bytesRead g) @ '' (too many bytes)'')"

definition no_more_chunks :: "getter \<Rightarrow> error" where
  "no_more_chunks g =
     ErrorString (''Expected '' @ fmt_d (contentLen g) @ '' bytes, received ''
       @ fmt_d (bytesRead g) @ '' and chunkID '' @ fmt_d (chunkID g) @ '' >= chunkTotal ''
       @ fmt_d (chunkTotal g) @ '' (no more chunks remaining)'')"

type_synonym read_ret = "getter \<times> byte list \<times> nat \<times> error option \<times> event list"

function Read_loop :: "getter \<Rightarrow> byte list \<Rightarrow> nat \<Rightarrow> event list \<Rightarrow> read_ret result" where
  "Read_loop g p nw evs =
     (if \<not> nw < length p then Return (g, p, nw, None, evs)
      else if bytesRead g = contentLen g then Return (g, p, nw, Some EOF, evs)
      else if bytesRead g > contentLen g then Return (g, p, nw, Some (too_many_bytes g), evs)
      else if chunkID g \<ge> chunkTotal g then Return (g, p, nw, Some (no_more_chunks g), evs)
      else
        (case load_rChunk g evs of
           Blocked \<Rightarrow> Blocked
         | Panic m \<Rightarrow> Panic m
         | Return (g1, Some e, evs1) \<Rightarrow> Return (g1, p, 0, Some e, evs1)
         | Return (g1, None, evs1) \<Rightarrow>
             (case rChunk g1 of
                None \<Rightarrow> Panic ''nil pointer dereference''
              | Some c \<Rightarrow>
                  if 0 \<le> cIdx g1 \<and> cIdx g1 \<le> c_size c \<and> c_size c \<le> int (length (c_b c))
                  then (case copy_out g1 c p nw of (g2, p1, nw1) \<Rightarrow> Read_loop g2 p1 nw1 evs1)
                  else Panic ''slice bounds out of range'')))"
  by pat_completeness auto

definition Read :: "getter \<Rightarrow> byte list \<Rightarrow> event list \<Rightarrow> read_ret result" where
  "Read g p evs =
     (if closed_g g then Return (g, p, 0, Some EINVAL, evs)
      else case err g of
        Some e \<Rightarrow> Return (g, p, 0, Some e, evs)
      | None \<Rightarrow> Read_loop g p 0 evs)"

subsection \<open>HTTP requests and the construction of a getter\<close>

text \<open>
  The environment of the package: the HTTP client (\<open>Do n method url\<close> is the outcome of
  the \<open>n\<close>-th request the process issues), \<^verbatim>\<open>http.NewRequest\<close>, \<^verbatim>\<open>Bucket.url\<close> (lines
  890--923, which rests on \<^verbatim>\<open>net/url\<close> and \<^verbatim>\<open>path\<close>), the path of a URL, the hex digest
  of MD5, \<^verbatim>\<open>strconv.ParseInt\<close>, the \<^verbatim>\<open>Message\<close> element of an XML error body,
  \<^verbatim>\<open>Bucket.conf\<close> and the clock.  Everything the package does to the outside is logged
  as an \<open>effect\<close>.
\<close>

record response =
  StatusCode :: int
  ContentLength :: int
  Header :: header
  Body :: string

record env =
  NewRequest_err :: "string \<Rightarrow> string \<Rightarrow> error option"
  Do :: "nat \<Rightarrow> string \<Rightarrow> string \<Rightarrow> error + response"
  bucket_url :: "string \<Rightarrow> Config \<Rightarrow> error + string"
  url_Path :: "string \<Rightarrow> string"
  md5_hex :: "byte list \<Rightarrow> string"
  ParseInt :: "string \<Rightarrow> error + int"
  xml_Message :: "string \<Rightarrow> string"
  bucket_conf :: Config
  time_Now :: int

datatype effect =
    HttpDo string string
  | BufferPool int
  | GoWorker
  | GoInitChunks
  | GoLoop
  | GoCopy

text \<open>\<^verbatim>\<open>newRespError\<close> (\<^verbatim>\<open>util.go\<close>, lines 64--71).\<close>

definition newRespError :: "env \<Rightarrow> response \<Rightarrow> error" where
  "newRespError E r = RespError (StatusCode r) (xml_Message E (Body r))"

fun is_HttpDo :: "effect \<Rightarrow> bool" where
  "is_HttpDo (HttpDo m u) = True"
| "is_HttpDo e = False"

text \<open>
  \<^verbatim>\<open>retryRequest\<close> (lines 220--245) with a nil body, as all its callers here pass.  The
  pair is the named result \<^verbatim>\<open>(resp, err)\<close>; it is \<^verbatim>\<open>(nil, nil)\<close> when the loop body
  never runs.
\<close>

fun retryRequest_loop ::
  "env \<Rightarrow> nat \<Rightarrow> string \<Rightarrow> string \<Rightarrow> response option \<times> error option \<Rightarrow> effect list
     \<Rightarrow> (response option \<times> error option) \<times> effect list" where
  "retryRequest_loop E 0 m u r w = (r, w)"
| "retryRequest_loop E (Suc k) m u r w =
     (case NewRequest_err E m u of
        Some e \<Rightarrow> ((fst r, Some e), w)
      | None \<Rightarrow>
          (case Do E (length (filter is_HttpDo w)) m u of
             Inr resp \<Rightarrow> ((Some resp, None), w @ [HttpDo m u])
           | Inl e \<Rightarrow> retryRequest_loop E k m u (None, Some e) (w @ [HttpDo m u])))"

definition retryRequest ::
  "env \<Rightarrow> int \<Rightarrow> string \<Rightarrow> string \<Rightarrow> effect list
     \<Rightarrow> (response option \<times> error option) \<times> effect list" where
  "retryRequest E ntry m u w = retryRequest_loop E (nat ntry) m u (None, None) w"

text \<open>
  \<^verbatim>\<open>newGetter\<close> (lines 172--218).  \<open>chunkTotal_of\<close> is line 208,
  \<^verbatim>\<open>int((g.contentLen + g.bufsz - 1) / g.bufsz)\<close>, in \<^verbatim>\<open>int64\<close> arithmetic.
\<close>

definition chunkTotal_of :: "int \<Rightarrow> int \<Rightarrow> int" where
  "chunkTotal_of contentLen0 bufsz0 = quo64 (wrap64 (wrap64 (contentLen0 + bufsz0) - 1)) bufsz0"

definition undefined_content_length :: error where
  "undefined_content_length =
     ErrorString (''Retrieving objects with undefined content-length ''
       @ '' responses (chunked transfer encoding / EOF close) is not supported'')"

definition newGetter ::
  "env \<Rightarrow> string \<Rightarrow> Config \<Rightarrow> effect list \<Rightarrow> (error + getter \<times> header) result \<times> effect list" where
  "newGetter E getURL c w =
     (let bufsz0 = max64 (PartSize c) 1;
          c1 = c\<lparr>NTry := max_int (NTry c) 1, Concurrency := max_int (Concurrency c) 1\<rparr>
      in case retryRequest E (NTry c1) ''GET'' getURL w of
           ((r, Some e), w1) \<Rightarrow> (Return (Inl e), w1)
         | ((None, None), w1) \<Rightarrow> (Panic ''nil pointer dereference'', w1)
         | ((Some resp, None), w1) \<Rightarrow>
             if StatusCode resp \<noteq> 200
             then (Return (Inl (newRespError E resp)), w1)
             else if ContentLength resp = - 1
             then (Return (Inl undefined_content_length), w1)
             else
               (let g = \<lparr>url = getURL, bufsz = bufsz0, err = None, chunkID = 0, rChunk = None,
                         contentLen = ContentLength resp, bytesRead = 0,
                         chunkTotal = chunkTotal_of (ContentLength resp) bufsz0,
                         qWait = Map.empty, qWaitLen = 0, activeChunks = Map.empty,
                         sp_give = [], sp_quit = False, quit = False, closed_g = False,
                         conf = c1, md5 = [], cIdx = 0\<rparr>
                in (Return (Inr (g, Header resp)),
                    w1 @ [BufferPool bufsz0]
                       @ replicate (nat (Concurrency c1)) GoWorker @ [GoInitChunks])))"

text \<open>
  \<^verbatim>\<open>initChunks\<close> (lines 247--266): the chunks in the order they are sent on \<^verbatim>\<open>getCh\<close>.
  The loop is the source's; that it ends is a theorem, not part of the definition.
\<close>

definition Range_header :: "int \<Rightarrow> int \<Rightarrow> header" where
  "Range_header i size0 =
     [(''Range'', [''bytes='' @ fmt_d i @ ''-'' @ fmt_d (wrap64 (wrap64 (i + size0) - 1))])]"

definition new_chunk :: "int \<Rightarrow> int \<Rightarrow> int \<Rightarrow> chunk" where
  "new_chunk id0 i size0 =
     \<lparr>c_id = id0, c_header = Range_header i size0, c_start = i, c_size = size0,
      c_b = [], c_rwrapper = None\<rparr>"

partial_function (option) initChunks_loop :: "getter \<Rightarrow> int \<Rightarrow> int \<Rightarrow> chunk list option" where
  "initChunks_loop g i id0 =
     (if i < contentLen g then
        Option.bind
          (initChunks_loop g
             (wrap64 (i + min64 (bufsz g) (wrap64 (contentLen g - i)))) (wrap64 (id0 + 1)))
          (\<lambda>cs. Some (new_chunk id0 i (min64 (bufsz g) (wrap64 (contentLen g - i))) # cs))
      else Some [])"

definition initChunks :: "getter \<Rightarrow> chunk list option" where
  "initChunks g = initChunks_loop g 0 0"

text \<open>\<^verbatim>\<open>checkMd5\<close> (lines 440--466) and \<^verbatim>\<open>Close\<close> (lines 418--438).\<close>

definition checkMd5 :: "env \<Rightarrow> getter \<Rightarrow> effect list \<Rightarrow> error option result \<times> effect list" where
  "checkMd5 E g w =
     (let calcMd5 = md5_hex E (md5 g);
          md5Path = ''.md5'' @ url_Path E (url g) @ ''.md5''
      in case bucket_url E md5Path (conf g) of
           Inl e \<Rightarrow> (Return (Some e), w)
         | Inr md5Url \<Rightarrow>
             (case retryRequest E (NTry (conf g)) ''GET'' md5Url w of
                ((r, Some e), w1) \<Rightarrow> (Return (Some e), w1)
              | ((None, None), w1) \<Rightarrow> (Panic ''nil pointer dereference'', w1)
              | ((Some resp, None), w1) \<Rightarrow>
                  if StatusCode resp \<noteq> 200
                  then (Return (Some (ErrorString (''MD5 check failed: '' @ md5Url
                          @ '' not found: '' @ Error (newRespError E resp)))), w1)
                  else if calcMd5 \<noteq> Body resp
                  then (Return (Some (ErrorString (''MD5 mismatch. given:'' @ Body resp
                          @ '' calculated:'' @ calcMd5))), w1)
                  else (Return None, w1)))"

definition short_read :: "getter \<Rightarrow> error" where
  "short_read g =
     ErrorString (''read error: '' @ fmt_d (bytesRead g) @ '' bytes read. expected: ''
       @ fmt_d (contentLen g))"

definition Close :: "env \<Rightarrow> getter \<Rightarrow> effect list \<Rightarrow> (getter \<times> error option) result \<times> effect list" where
  "Close E g w =
     (if closed_g g then (Return (g, Some EINVAL), w)
      else
        (let g1 = g\<lparr>closed_g := True, sp_quit := True, quit := True\<rparr>
         in case err g1 of
              Some e \<Rightarrow> (Return (g1, Some e), w)
            | None \<Rightarrow>
                if bytesRead g1 \<noteq> contentLen g1 then (Return (g1, Some (short_read g1)), w)
                else if Md5Check (conf g1) then
                  (case checkMd5 E g1 w of
                     (Return r, w1) \<Rightarrow> (Return (g1, r), w1)
                   | (Blocked, w1) \<Rightarrow> (Blocked, w1)
                   | (Panic m, w1) \<Rightarrow> (Panic m, w1))
                else (Return (g1, None), w)))"

subsection \<open>Tombs (\<^verbatim>\<open>gopkg.in/tomb.v2\<close>)\<close>

text \<open>
  The controllers supervise their goroutines with a tomb.  The library is not part of the
  repository; the record follows its documented behaviour: \<open>reason\<close> is \<open>ErrStillAlive\<close>
  until the first \<^verbatim>\<open>Kill\<close>, a later \<^verbatim>\<open>Kill\<close> replaces only a nil reason, a tracked goroutine
  that returns kills the tomb with its result when it is the last one (or fails), and the
  tomb is dead once the last tracked goroutine has returned.  \<^verbatim>\<open>Wait\<close> blocks until then.
\<close>

record Tomb =
  reason :: "error option"
  alive :: nat
  dying :: bool
  dead :: bool

definition tomb_new :: Tomb where
  "tomb_new = \<lparr>reason = Some ErrStillAlive, alive = 0, dying = False, dead = False\<rparr>"

definition tomb_Go :: "Tomb \<Rightarrow> Tomb" where
  "tomb_Go tb = tb\<lparr>alive := alive tb + 1\<rparr>"

definition tomb_Kill :: "Tomb \<Rightarrow> error option \<Rightarrow> Tomb" where
  "tomb_Kill tb r =
     (if reason tb = Some ErrStillAlive then tb\<lparr>reason := r, dying := True\<rparr>
      else if reason tb = None then tb\<lparr>reason := r\<rparr>
      else tb)"

definition tomb_Err :: "Tomb \<Rightarrow> error option" where
  "tomb_Err tb = reason tb"

definition tomb_run_exit :: "Tomb \<Rightarrow> error option \<Rightarrow> Tomb" where
  "tomb_run_exit tb e =
     (let tb1 = tb\<lparr>alive := alive tb - 1\<rparr>
      in if alive tb1 = 0 \<or> e \<noteq> None then
           (let tb2 = tomb_Kill tb1 e
            in if alive tb1 = 0 then tb2\<lparr>dead := True\<rparr> else tb2)
         else tb1)"

definition tomb_Wait :: "Tomb \<Rightarrow> error option result" where
  "tomb_Wait tb = (if dead tb then Return (reason tb) else Blocked)"

subsection \<open>Entry points of the bucket (\<^verbatim>\<open>s3gof3r.go\<close>, in \<^verbatim>\<open>src/unnamed/part_000\<close>)\<close>

text \<open>
  \<^verbatim>\<open>GetReader\<close> (lines 619--631), \<^verbatim>\<open>GetterController\<close> (lines 633--641) and \<^verbatim>\<open>GetAsync\<close>
  (lines 715--759).  A nil \<^verbatim>\<open>*Config\<close> is \<open>None\<close>.  The two goroutines \<^verbatim>\<open>GetAsync\<close> starts
  are logged as \<open>GoLoop\<close> and \<open>GoCopy\<close>.  The earlier revision in \<^verbatim>\<open>src/s3gof3r.go\<close> (lines
  112--124 and 186--208) begins with the same statements.
\<close>

record GetterController =
  gc_tomb :: Tomb
  gc_st :: "speedTracker option"
  gc_size :: int
  gc_getter :: getter
  gc_State :: string
  gc_Reason :: string
  gc_headers :: header

definition empty_path :: error where
  "empty_path = ErrorString ''empty path requested''"

definition GetReader ::
  "env \<Rightarrow> string \<Rightarrow> Config option \<Rightarrow> effect list
     \<Rightarrow> (error + getter \<times> header) result \<times> effect list" where
  "GetReader E path c w =
     (if path = [] then (Return (Inl empty_path), w)
      else
        (let c1 = (case c of None \<Rightarrow> bucket_conf E | Some c0 \<Rightarrow> c0)
         in case bucket_url E path c1 of
              Inl e \<Rightarrow> (Return (Inl e), w)
            | Inr u \<Rightarrow> newGetter E u c1 w))"

definition new_controller :: "env \<Rightarrow> getter \<Rightarrow> header \<Rightarrow> int \<Rightarrow> GetterController" where
  "new_controller E g headers size0 =
     \<lparr>gc_tomb = tomb_Go tomb_new, gc_st = Some (newSpeedTracker (time_Now E)), gc_size = size0,
      gc_getter = g, gc_State = ''Ready'', gc_Reason = [], gc_headers = headers\<rparr>"

definition GetAsync ::
  "env \<Rightarrow> string \<Rightarrow> Config option \<Rightarrow> effect list
     \<Rightarrow> (error + GetterController) result \<times> effect list" where
  "GetAsync E path c w =
     (if path = [] then (Return (Inl empty_path), w)
      else
        (let c1 = (case c of None \<Rightarrow> bucket_conf E | Some c0 \<Rightarrow> c0)
         in case bucket_url E path c1 of
              Inl e \<Rightarrow> (Return (Inl e), w)
            | Inr u \<Rightarrow>
                (case newGetter E u c1 w of
                   (Blocked, w1) \<Rightarrow> (Blocked, w1)
                 | (Panic m, w1) \<Rightarrow> (Panic m, w1)
                 | (Return (Inl e), w1) \<Rightarrow> (Return (Inl e), w1)
                 | (Return (Inr (g, headers)), w1) \<Rightarrow>
                     (case map_of headers ''Content-Length'' of
                        None \<Rightarrow> (Panic ''index out of range'', w1)
                      | Some [] \<Rightarrow> (Panic ''index out of range'', w1)
                      | Some (sizeStr # rest) \<Rightarrow>
                          (case ParseInt E sizeStr of
                             Inl e \<Rightarrow> (Return (Inl e), w1)
                           | Inr size0 \<Rightarrow>
                               (Return (Inr (new_controller E g headers size0)),
                                w1 @ [GoLoop, GoCopy]))))))"

subsection \<open>The region of an endpoint (\<^verbatim>\<open>s3gof3r.go\<close>, in \<^verbatim>\<open>src/unnamed/part_000\<close>)\<close>

text \<open>
  \<^verbatim>\<open>regionMatcher\<close> (line 524) is the pattern
  \<^verbatim>\<open>s3[-.]([a-z0-9-]+).amazonaws.com([.a-z0-9]*)\<close>.  \<open>regionMatcher_FindStringSubmatch\<close>
  is \<^verbatim>\<open>regexp\<close>'s leftmost-first search for this pattern: the first position where a match
  starts, the first group as long as the rest of the pattern still matches, a dot standing
  for any character but a newline.  It returns the match and its two groups, or nothing.
\<close>

definition is_region_char :: "char \<Rightarrow> bool" where
  "is_region_char ch \<longleftrightarrow> ch \<in> set ''abcdefghijklmnopqrstuvwxyz0123456789-''"

definition is_suffix_char :: "char \<Rightarrow> bool" where
  "is_suffix_char ch \<longleftrightarrow> ch \<in> set ''.abcdefghijklmnopqrstuvwxyz0123456789''"

definition any_char :: "char \<Rightarrow> bool" where
  "any_char ch \<longleftrightarrow> ch \<noteq> CHR 0x0A"

definition match_tail :: "string \<Rightarrow> (string \<times> string) option" where
  "match_tail s =
     (case s of
        d1 # r1 \<Rightarrow>
          if any_char d1 \<and> take 9 r1 = ''amazonaws'' then
            (case drop 9 r1 of
               d2 # r2 \<Rightarrow>
                 if any_char d2 \<and> take 3 r2 = ''com''
                 then Some (d1 # ''amazonaws'' @ d2 # ''com'' @ takeWhile is_suffix_char (drop 3 r2),
                            takeWhile is_suffix_char (drop 3 r2))
                 else None
             | [] \<Rightarrow> None)
          else None
      | [] \<Rightarrow> None)"

fun match_region :: "nat \<Rightarrow> string \<Rightarrow> (string \<times> string \<times> string) option" where
  "match_region 0 s = None"
| "match_region (Suc k) s =
     (case match_tail (drop (Suc k) s) of
        Some (m, g2) \<Rightarrow> Some (take (Suc k) s @ m, take (Suc k) s, g2)
      | None \<Rightarrow> match_region k s)"

definition match_here :: "string \<Rightarrow> string list option" where
  "match_here s =
     (case s of
        a # b # sep # rest \<Rightarrow>
          if a = CHR ''s'' \<and> b = CHR ''3'' \<and> (sep = CHR ''-'' \<or> sep = CHR ''.'') then
            (case match_region (length (takeWhile is_region_char rest)) rest of
               Some (m, g1, g2) \<Rightarrow> Some [a # b # sep # m, g1, g2]
             | None \<Rightarrow> None)
          else None
      | _ \<Rightarrow> None)"

fun regionMatcher_FindStringSubmatch :: "string \<Rightarrow> string list" where
  "regionMatcher_FindStringSubmatch [] = []"
| "regionMatcher_FindStringSubmatch (ch # s) =
     (case match_here (ch # s) of
        Some r \<Rightarrow> r
      | None \<Rightarrow> regionMatcher_FindStringSubmatch s)"

declare regionMatcher_FindStringSubmatch.simps [simp del]

text \<open>
  \<^verbatim>\<open>S3.Region\<close> (lines 534--554); \<open>AWS_REGION\<close> is the value of the environment variable,
  empty when it is unset.
\<close>

definition no_region :: string where
  "no_region = ''can'' @ [CHR 0x27] @ ''t find endpoint region''"

definition Region :: "string \<Rightarrow> string \<Rightarrow> string result" where
  "Region domain AWS_REGION =
     (if domain = ''s3.amazonaws.com'' \<or> domain = ''s3-external-1.amazonaws.com''
      then Return ''us-east-1''
      else if domain = ''s3-accelerate.amazonaws.com''
      then (if AWS_REGION = [] then Panic no_region else Return AWS_REGION)
      else
        (let regions = regionMatcher_FindStringSubmatch domain
         in if length regions < 2
            then (if AWS_REGION = [] then Panic no_region else Return AWS_REGION)
            else Return (regions ! 1)))"

subsection \<open>The put controller (\<^verbatim>\<open>s3gof3r.go\<close>)\<close>

text \<open>
  Modelled from the spec: the putter, whose declaration (\<^verbatim>\<open>putter.go\<close>) is not among the
  sources.  The record holds what the controller touches: the sticky error, the retry
  budget of its configuration, and the tracked readers of the parts accepted so far
  (``\<open>reader: tracked reader over buf\<close>'').  \<^verbatim>\<open>ForceClose\<close> is that of \<^verbatim>\<open>util.go\<close>, lines
  142--144.
\<close>

definition ForceClose_srw :: "seekReaderWrapper \<Rightarrow> seekReaderWrapper" where
  "ForceClose_srw r = r\<lparr>closed_srw := True\<rparr>"

record putter =
  putter_err :: "error option"
  putter_NTry :: int
  putter_parts :: "seekReaderWrapper list"

text \<open>\<^verbatim>\<open>PutController\<close> (\<^verbatim>\<open>src/unnamed/part_000\<close>, lines 815--821).\<close>

record PutController =
  tomb :: Tomb
  putter :: putter
  st :: "speedTracker option"
  State :: string
  Reason :: string

text \<open>
  The branch \<^verbatim>\<open>case <-p.t.Dying()\<close> of \<^verbatim>\<open>PutController.loop\<close> (lines 838--848) and its
  result.  \<open>PutController_supervisor\<close> is the rest of the life of the goroutine that runs
  \<^verbatim>\<open>loop\<close> once the tomb is dying: the branch, then the tomb's bookkeeping for a goroutine
  that has returned.  It runs only while that goroutine is alive.
\<close>

definition PutController_loop_dying :: "PutController \<Rightarrow> PutController \<times> error option" where
  "PutController_loop_dying pc =
     (let pu = putter pc;
          pu1 = (if putter_parts pu = [] then pu
                 else pu\<lparr>putter_NTry := 0, putter_parts := map ForceClose_srw (putter_parts pu)\<rparr>);
          pc1 = pc\<lparr>putter := pu1\<rparr>;
          killReason = tomb_Err (tomb pc1)
      in (if killReason = Some ErrStopped then pc1\<lparr>State := ''Stopped''\<rparr> else pc1, None))"

definition PutController_supervisor :: "PutController \<Rightarrow> PutController" where
  "PutController_supervisor pc =
     (if dead (tomb pc) \<or> alive (tomb pc) = 0 then pc
      else case PutController_loop_dying pc of
             (pc1, e) \<Rightarrow> pc1\<lparr>tomb := tomb_run_exit (tomb pc1) e\<rparr>)"

text \<open>\<^verbatim>\<open>PutController.Stop\<close> (\<^verbatim>\<open>src/unnamed/part_000\<close>, lines 878--888).\<close>

definition PutController_Stop :: "PutController \<Rightarrow> (PutController \<times> error option) result" where
  "PutController_Stop pc =
     (let pc1 = pc\<lparr>putter := (putter pc)\<lparr>putter_err := Some ErrStopped\<rparr>\<rparr>;
          pc2 = pc1\<lparr>tomb := tomb_Kill (tomb pc1) (Some ErrStopped)\<rparr>;
          pc3 = PutController_supervisor pc2
      in case tomb_Wait (tomb pc3) of
           Return e \<Rightarrow> Return (pc3, e)
         | Blocked \<Rightarrow> Blocked
         | Panic m \<Rightarrow> Panic m)"

text \<open>
  The earlier revision, \<^verbatim>\<open>src/s3gof3r.go\<close>: the same branch of \<^verbatim>\<open>loop\<close> (lines 283--289) and
  \<^verbatim>\<open>Stop\<close> (lines 312--318).  \<^verbatim>\<open>err.Error()\<close> panics on a nil error.
\<close>

definition PutController_loop_dying_rev0 :: "PutController \<Rightarrow> PutController \<times> error option" where
  "PutController_loop_dying_rev0 pc =
     (let pc1 = pc\<lparr>st := None\<rparr>;
          pu = putter pc1
      in (pc1\<lparr>putter := pu\<lparr>putter_parts := map ForceClose_srw (putter_parts pu)\<rparr>\<rparr>, None))"

definition PutController_supervisor_rev0 :: "PutController \<Rightarrow> PutController" where
  "PutController_supervisor_rev0 pc =
     (if dead (tomb pc) \<or> alive (tomb pc) = 0 then pc
      else case PutController_loop_dying_rev0 pc of
             (pc1, e) \<Rightarrow> pc1\<lparr>tomb := tomb_run_exit (tomb pc1) e\<rparr>)"

definition PutController_Stop_rev0 :: "PutController \<Rightarrow> (PutController \<times> error option) result" where
  "PutController_Stop_rev0 pc =
     (let pc2 = pc\<lparr>tomb := tomb_Kill (tomb pc) (Some ErrStopped)\<rparr>;
          pc3 = PutController_supervisor_rev0 pc2
      in case tomb_Wait (tomb pc3) of
           Return e \<Rightarrow>
             (case e of
                None \<Rightarrow> Panic ''nil pointer dereference''
              | Some e1 \<Rightarrow> Return (pc3\<lparr>State := ''Failed'', Reason := Error e1\<rparr>, e))
         | Blocked \<Rightarrow> Blocked
         | Panic m \<Rightarrow> Panic m)"

text \<open>
  The chunks as the specification describes them: chunk \<open>k\<close> of an object of \<open>L\<close> bytes
  fetched in parts of \<open>P\<close> bytes starts at \<open>k * P\<close>, has \<open>min P (L - k * P)\<close> bytes and
  carries the header \<^verbatim>\<open>Range: bytes=start-(start+size-1)\<close>.
\<close>

definition nth_chunk :: "int \<Rightarrow> int \<Rightarrow> nat \<Rightarrow> chunk" where
  "nth_chunk P L k =
     \<lparr>c_id = int k,
      c_header = [(''Range'', [''bytes='' @ fmt_d (int k * P) @ ''-''
                     @ fmt_d (int k * P + min P (L - int k * P) - 1)])],
      c_start = int k * P,
      c_size = min P (L - int k * P),
      c_b = [], c_rwrapper = None\<rparr>"

subsection \<open>The pipeline as interleaved steps\<close>

text \<open>
  The goroutines of a getter, one atomic step at a time.  A worker (\<^verbatim>\<open>worker\<close>,
  \<^verbatim>\<open>retryGetChunk\<close>, \<^verbatim>\<open>getChunk\<close>; lines 268--336) waits on \<^verbatim>\<open>getCh\<close> (\<open>WIdle\<close>), fetches
  the chunk it received (\<open>WFetch\<close>), offers the fetched chunk on \<^verbatim>\<open>readCh\<close> (\<open>WSend\<close>),
  and after the hand-over stands at the loop \<^verbatim>\<open>for g.qWaitLen >= qWaitMax\<close> (\<open>WGate\<close>).
  The dispatcher (\<^verbatim>\<open>initChunks\<close>) still has the chunks \<open>getCh\<close> to hand out.  The reader
  (\<^verbatim>\<open>Read\<close>, \<^verbatim>\<open>nextChunk\<close>; lines 338--416) is at the top of the loop of \<^verbatim>\<open>nextChunk\<close>
  (\<open>RNext\<close>), has stored a received chunk in \<^verbatim>\<open>qWait\<close> and not yet counted it (\<open>RInc\<close>),
  has deleted the chunk it needs from \<^verbatim>\<open>qWait\<close> and not yet discounted it (\<open>RDec\<close>), or
  is copying its chunk out (\<open>RCopy\<close>).  The counter \<^verbatim>\<open>qWaitLen\<close> changes under the lock,
  in a step of its own, as in the source.
\<close>

datatype wstate = WIdle | WFetch chunk | WSend chunk | WGate

datatype rstate = RNext | RInc | RDec chunk | RCopy

record pipeline =
  pg :: getter
  workers :: "wstate list"
  getCh :: "chunk list"
  reader :: rstate

datatype action =
    Dispatch nat
  | Fetched nat "byte list"
  | GiveUp nat error
  | Send nat
  | Inc
  | Take
  | Dec
  | Copied
  | Gate nat

text \<open>What \<^verbatim>\<open>Read\<close> has checked when it calls \<^verbatim>\<open>nextChunk\<close> (lines 348--363).\<close>

definition reader_waits :: "getter \<Rightarrow> bool" where
  "reader_waits g \<longleftrightarrow>
     rChunk g = None \<and> bytesRead g < contentLen g \<and> chunkID g < chunkTotal g"

definition worker_at :: "pipeline \<Rightarrow> nat \<Rightarrow> wstate option" where
  "worker_at s i = (if i < length (workers s) then Some (workers s ! i) else None)"

text \<open>
  \<open>step s a\<close> is the state after the action \<open>a\<close>, or \<open>None\<close> when \<open>a\<close> cannot happen in
  \<open>s\<close>.  \<open>Dispatch i\<close>: worker \<open>i\<close> receives the next chunk (lines 263, 269--272).
  \<open>Fetched i bs\<close>: its request succeeded and filled the buffer \<open>bs\<close> (lines 279,
  298--323; \<open>fetched\<close> is the chunk afterwards).
  \<open>GiveUp i e\<close>: all attempts failed (lines 288--293).  \<open>Send i\<close>: the reader receives
  the chunk of worker \<open>i\<close> and stores it (lines 324, 407--408).  \<open>Inc\<close>: lines 409--411.
  \<open>Take\<close>: lines 391--393.  \<open>Dec\<close>: lines 394--403 and 368.  \<open>Copied\<close>: the chunk has been
  copied out, by one \<^verbatim>\<open>Read\<close> or several (lines 371--383).  \<open>Gate i\<close>: worker \<open>i\<close> leaves
  the loop of lines 327--335.
\<close>

definition fetched :: "chunk \<Rightarrow> byte list \<Rightarrow> chunk" where
  "fetched c bs = c\<lparr>c_b := bs, c_rwrapper := Some ((newReaderWrapper [])\<lparr>bytesdone := c_size c\<rparr>)\<rparr>"

fun step :: "pipeline \<Rightarrow> action \<Rightarrow> pipeline option" where
  "step s (Dispatch i) =
     (case (getCh s, worker_at s i) of
        (c # cs, Some WIdle) \<Rightarrow>
          Some (s\<lparr>pg := (pg s)\<lparr>activeChunks := (activeChunks (pg s))(c_id c \<mapsto> c)\<rparr>,
                  workers := (workers s)[i := WFetch c], getCh := cs\<rparr>)
      | _ \<Rightarrow> None)"
| "step s (Fetched i bs) =
     (case worker_at s i of
        Some (WFetch c) \<Rightarrow>
          if c_size c \<le> int (length bs)
          then Some (s\<lparr>pg := (pg s)\<lparr>activeChunks :=
                              (activeChunks (pg s))(c_id c \<mapsto> fetched c bs)\<rparr>,
                       workers := (workers s)[i := WSend (fetched c bs)]\<rparr>)
          else None
      | _ \<Rightarrow> None)"
| "step s (GiveUp i e) =
     (case worker_at s i of
        Some (WFetch c) \<Rightarrow>
          Some (s\<lparr>pg := (if quit (pg s) then pg s else (pg s)\<lparr>err := Some e\<rparr>),
                  workers := (workers s)[i := WIdle]\<rparr>)
      | _ \<Rightarrow> None)"
| "step s (Send i) =
     (case worker_at s i of
        Some (WSend c) \<Rightarrow>
          if reader s = RNext \<and> reader_waits (pg s) \<and> qWait (pg s) (chunkID (pg s)) = None
          then Some (s\<lparr>pg := (pg s)\<lparr>qWait := (qWait (pg s))(c_id c \<mapsto> c)\<rparr>,
                       workers := (workers s)[i := WGate], reader := RInc\<rparr>)
          else None
      | _ \<Rightarrow> None)"
| "step s Inc =
     (if reader s = RInc
      then Some (s\<lparr>pg := (pg s)\<lparr>qWaitLen := uint_inc (qWaitLen (pg s))\<rparr>, reader := RNext\<rparr>)
      else None)"
| "step s Take =
     (if reader s = RNext \<and> reader_waits (pg s) then
        (case qWait (pg s) (chunkID (pg s)) of
           Some c \<Rightarrow>
             Some (s\<lparr>pg := (pg s)\<lparr>qWait := (qWait (pg s))(chunkID (pg s) := None)\<rparr>,
                     reader := RDec c\<rparr>)
         | None \<Rightarrow> None)
      else None)"
| "step s Dec =
     (case reader s of
        RDec c \<Rightarrow>
          Some (s\<lparr>pg := (pg s)\<lparr>qWaitLen := uint_dec (qWaitLen (pg s)),
                     md5 := (if Md5Check (conf (pg s))
                             then md5 (pg s) @ take (nat (c_size c)) (c_b c) else md5 (pg s)),
                     rChunk := Some c, cIdx := 0\<rparr>,
                  reader := RCopy\<rparr>)
      | _ \<Rightarrow> None)"
| "step s Copied =
     (case (reader s, rChunk (pg s)) of
        (RCopy, Some c) \<Rightarrow>
          Some (s\<lparr>pg := (pg s)\<lparr>cIdx := c_size c,
                     bytesRead := wrap64 (bytesRead (pg s) + c_size c),
                     activeChunks := (activeChunks (pg s))(c_id c := None),
                     sp_give := sp_give (pg s) @ [c_b c],
                     chunkID := chunkID (pg s) + 1,
                     rChunk := None\<rparr>,
                  reader := RNext\<rparr>)
      | _ \<Rightarrow> None)"
| "step s (Gate i) =
     (if worker_at s i = Some WGate \<and> (qWaitLen (pg s) < qWaitMax \<or> closed_g (pg s))
      then Some (s\<lparr>workers := (workers s)[i := WIdle]\<rparr>)
      else None)"

fun run :: "pipeline \<Rightarrow> action list \<Rightarrow> pipeline option" where
  "run s [] = Some s"
| "run s (a # as) = (case step s a of None \<Rightarrow> None | Some s1 \<Rightarrow> run s1 as)"

definition init_pipeline :: "getter \<Rightarrow> nat \<Rightarrow> chunk list \<Rightarrow> pipeline" where
  "init_pipeline g n cs = \<lparr>pg = g, workers = replicate n WIdle, getCh = cs, reader = RNext\<rparr>"

text \<open>The number of workers standing at the gate.\<close>

definition at_gate :: "wstate list \<Rightarrow> nat" where
  "at_gate ws = length (filter (\<lambda>w. w = WGate) ws)"

text \<open>
  The invariant of the interleaving: the getter is open, and with \<^verbatim>\<open>qWaitLen\<close> corrected
  for a step of the reader that is under way, the counter is at most \<open>qWaitMax\<close> plus the
  number of workers at the gate, and at least the number of chunks in \<^verbatim>\<open>qWait\<close>.
\<close>

definition pending_inc :: "pipeline \<Rightarrow> nat" where
  "pending_inc s = (if reader s = RInc then 1 else 0)"

definition pending_dec :: "pipeline \<Rightarrow> nat" where
  "pending_dec s = (case reader s of RDec c \<Rightarrow> 1 | _ \<Rightarrow> 0)"

definition pipeline_inv :: "nat \<Rightarrow> pipeline \<Rightarrow> bool" where
  "pipeline_inv n s \<longleftrightarrow>
     length (workers s) = n \<and> \<not> closed_g (pg s) \<and> finite (dom (qWait (pg s)))
     \<and> qWaitLen (pg s) + pending_inc s \<le> qWaitMax + at_gate (workers s)
     \<and> card (dom (qWait (pg s))) + pending_dec s \<le> qWaitLen (pg s) + pending_inc s"

subsection \<open>Example states\<close>

text \<open>
  A three-byte object fetched as one chunk, and an environment whose server answers every
  request with status 200.  They are the concrete inputs of the instances below.
\<close>

definition conf0 :: Config where
  "conf0 = \<lparr>Concurrency = 2, PartSize = 3, NTry = 1, Md5Check = False\<rparr>"

definition response0 :: response where
  "response0 = \<lparr>StatusCode = 200, ContentLength = 3,
      Header = [(''Content-Length'', [''3''])], Body = ''abc''\<rparr>"

definition env0 :: env where
  "env0 = \<lparr>NewRequest_err = (\<lambda>m u. None), Do = (\<lambda>n m u. Inr response0),
      bucket_url = (\<lambda>p c. Inr (''https://b.s3.amazonaws.com/'' @ p)),
      url_Path = (\<lambda>u. ''/k''), md5_hex = (\<lambda>bs. ''900150983cd24fb0d6963f7d28e17f72''),
      ParseInt = (\<lambda>s. Inr 3), xml_Message = (\<lambda>b. b), bucket_conf = conf0, time_Now = 0\<rparr>"

definition getter0 :: getter where
  "getter0 = \<lparr>url = ''https://b.s3.amazonaws.com/k'', bufsz = 3, err = None, chunkID = 0,
      rChunk = None, contentLen = 3, bytesRead = 0, chunkTotal = 1, qWait = Map.empty,
      qWaitLen = 0, activeChunks = Map.empty, sp_give = [], sp_quit = False, quit = False,
      closed_g = False, conf = conf0, md5 = [], cIdx = 0\<rparr>"




definition getter0_failed :: getter where
  "getter0_failed =
     getter0\<lparr>err := Some (ErrorString ''test error''), conf := conf0\<lparr>Md5Check := True\<rparr>\<rparr>"

text \<open>
  A put controller in the middle of an upload, as \<^verbatim>\<open>PutAsync\<close> (lines 779--813) leaves it
  once \<^verbatim>\<open>loop\<close> has started: the tomb tracks the one goroutine, one part is in flight.
\<close>

definition pc_uploading :: PutController where
  "pc_uploading =
     \<lparr>tomb = tomb_Go tomb_new,
      putter = \<lparr>putter_err = None, putter_NTry = 10,
                putter_parts = [\<lparr>closed_srw = False, bytesdone_srw = 204800\<rparr>]\<rparr>,
      st = Some (newSpeedTracker 0), State = ''Uploading'', Reason = []\<rparr>"

text \<open>
  A server that announces the largest content length an \<^verbatim>\<open>int64\<close> holds, read with the
  default part size of 20 MiB.
\<close>

definition conf_default :: Config where
  "conf_default = \<lparr>Concurrency = 10, PartSize = 20971520, NTry = 10, Md5Check = True\<rparr>"

definition env_huge :: env where
  "env_huge = env0\<lparr>Do := (\<lambda>n m u. Inr (response0\<lparr>ContentLength := 9223372036854775807\<rparr>)),
      bucket_conf := conf_default\<rparr>"

text \<open>
  An object of four bytes fetched in parts of one byte by four workers, and a schedule
  in which the worker fetching chunk 0 is slow: the other three fetch and hand over their
  chunks while the reader waits for chunk 0.
\<close>

definition getter4 :: getter where
  "getter4 = getter0\<lparr>bufsz := 1, contentLen := 4, chunkTotal := 4\<rparr>"

definition chunks4 :: "chunk list" where
  "chunks4 = map (nth_chunk 1 4) [0, 1, 2, 3]"

definition slow_first :: "action list" where
  "slow_first =
     [Dispatch 0, Dispatch 1, Dispatch 2, Dispatch 3,
      Fetched 1 [7], Fetched 2 [8], Fetched 3 [9],
      Send 1, Inc, Send 2, Inc, Send 3, Inc]"

section \<open>Properties\<close>

subsection \<open>Termination of the loop of \<^verbatim>\<open>Read\<close>\<close>

lemma takeChunk_ids:
  "takeChunk g c evs = Return (g1, r, evs1) \<Longrightarrow>
     chunkID g1 = chunkID g \<and> chunkTotal g1 = chunkTotal g"
  by (auto simp: takeChunk_def Let_def split: if_splits)

lemma nextChunk_ids:
  "nextChunk g evs = Return (g1, r, evs1) \<Longrightarrow>
     chunkID g1 = chunkID g \<and> chunkTotal g1 = chunkTotal g"
proof (induction g evs rule: nextChunk.induct)
  case (1 g)
  then show ?case by (auto split: option.splits dest: takeChunk_ids)
next
  case (2 g ev evs)
  then show ?case by (auto split: option.splits event.splits dest: takeChunk_ids)
qed

lemma load_rChunk_ids:
  assumes "load_rChunk g evs = Return (g1, e, evs1)"
  shows "chunkID g1 = chunkID g \<and> chunkTotal g1 = chunkTotal g"
proof (cases "rChunk g = None")
  case True
  show ?thesis
  proof (cases "nextChunk g evs")
    case (Return x)
    obtain g0 c e0 evs0 where x: "x = (g0, (c, e0), evs0)"
      by (cases x) auto
    have ids: "chunkID g0 = chunkID g \<and> chunkTotal g0 = chunkTotal g"
      using nextChunk_ids [of g evs g0 "(c, e0)" evs0] Return x by simp
    have "g1 = g0\<lparr>rChunk := c\<rparr> \<or> g1 = g0\<lparr>rChunk := c, cIdx := 0\<rparr>"
      using assms True Return x by (cases e0) (simp_all add: load_rChunk_def)
    then show ?thesis using ids by auto
  next
    case Blocked
    then show ?thesis using assms True by (simp add: load_rChunk_def)
  next
    case (Panic m)
    then show ?thesis using assms True by (simp add: load_rChunk_def)
  qed
next
  case False
  then obtain c where "rChunk g = Some c" by auto
  then show ?thesis using assms by (simp add: load_rChunk_def)
qed

lemma copy_out_facts:
  assumes "copy_out g c p nw = (g2, p1, nw1)" and "nw < length p"
    and "0 \<le> cIdx g" and "cIdx g \<le> c_size c" and "c_size c \<le> int (length (c_b c))"
  shows "length p1 = length p" and "nw \<le> nw1" and "nw1 \<le> length p"
    and "chunkTotal g2 = chunkTotal g"
    and "chunkID g2 = chunkID g + 1 \<or> (chunkID g2 = chunkID g \<and> nw1 = length p)"
proof -
  define n where "n = min (length p - nw) (nat (c_size c - cIdx g))"
  have n1: "n \<le> length p - nw" and n2: "int n \<le> c_size c - cIdx g"
    using assms(4) by (auto simp: n_def)
  have n3: "n \<le> length (c_b c) - nat (cIdx g)"
    using n2 assms(3,5) by linarith
  have p1: "p1 = take nw p @ take n (drop (nat (cIdx g)) (c_b c)) @ drop (nw + n) p"
    and nw1: "nw1 = nw + n"
    using assms(1) by (auto simp: copy_out_def Let_def n_def)
  show "length p1 = length p"
    using assms(2) n1 n3 by (simp add: p1 min_def)
  show "nw \<le> nw1" by (simp add: nw1)
  show "nw1 \<le> length p" using n1 assms(2) by (simp add: nw1)
  show "chunkTotal g2 = chunkTotal g"
    using assms(1) by (auto simp: copy_out_def Let_def split: if_splits)
  show "chunkID g2 = chunkID g + 1 \<or> (chunkID g2 = chunkID g \<and> nw1 = length p)"
  proof (cases "cIdx g + int n \<ge> c_size c")
    case True
    then show ?thesis
      using assms(1) by (auto simp: copy_out_def Let_def n_def [symmetric])
  next
    case False
    then have "n = length p - nw"
      using assms(4) unfolding n_def min_def
      by (cases "length p - nw \<le> nat (c_size c - cIdx g)") auto
    moreover have "chunkID g2 = chunkID g"
      using assms(1) False by (auto simp: copy_out_def Let_def n_def [symmetric])
    ultimately show ?thesis using assms(2) by (simp add: nw1)
  qed
qed

lemma copy_out_measure:
  assumes "copy_out g c p nw = (g2, p1, nw1)" and "nw < length p"
    and "chunkID g < chunkTotal g" and "cIdx g \<le> c_size c"
    and "c_size c \<le> int (length (c_b c))" and "0 \<le> cIdx g"
  shows "nat (chunkTotal g2 - chunkID g2) + (length p1 - nw1)
           < nat (chunkTotal g - chunkID g) + (length p - nw)"
  using copy_out_facts [OF assms(1,2,6,4,5)] assms(2,3) by auto

lemma Read_loop_decreases:
  assumes "load_rChunk g evs = Return (g1, e, evs1)" and "rChunk g1 = Some c"
    and "0 \<le> cIdx g1 \<and> cIdx g1 \<le> c_size c \<and> c_size c \<le> int (length (c_b c))"
    and "copy_out g1 c p nw = (g2, p1, nw1)" and "nw < length p"
    and "\<not> chunkTotal g \<le> chunkID g"
  shows "nat (chunkTotal g2 - chunkID g2) + (length p1 - nw1)
           < nat (chunkTotal g - chunkID g) + (length p - nw)"
proof -
  have ids: "chunkID g1 = chunkID g \<and> chunkTotal g1 = chunkTotal g"
    using load_rChunk_ids [OF assms(1)] .
  have "nat (chunkTotal g2 - chunkID g2) + (length p1 - nw1)
          < nat (chunkTotal g1 - chunkID g1) + (length p - nw)"
    using copy_out_measure [OF assms(4,5)] assms(3,6) ids by simp
  then show ?thesis using ids by simp
qed

termination Read_loop
proof (relation "measure (\<lambda>(g, p, nw, evs). nat (chunkTotal g - chunkID g) + (length p - nw))",
    goal_cases)
  case 1
  show ?case by simp
next
  case (2 g p nw evs x1 x y xa ya x2 xaa yb xb yc)
  have l: "load_rChunk g evs = Return (x, None, ya)"
    using 2(5,6,7,8) by auto
  have co: "copy_out x x2 p nw = (xaa, xb, yc)"
    using 2(11,12) by simp
  have "nat (chunkTotal xaa - chunkID xaa) + (length xb - yc)
          < nat (chunkTotal g - chunkID g) + (length p - nw)"
    using Read_loop_decreases [OF l 2(9) 2(10) co] 2(1,4) by simp
  then show ?case by simp
qed

declare Read_loop.simps [simp del]

subsection \<open>Arithmetic of the machine integers\<close>

lemma wrap64_id: "is_int64 x \<Longrightarrow> wrap64 x = x"
  unfolding wrap64_def is_int64_def by simp


lemma wrap64_wrap64_add: "wrap64 (wrap64 x + y) = wrap64 (x + y)"
proof -
  have "(((x + 2 ^ 63) mod 2 ^ 64 - 2 ^ 63 + y) + 2 ^ 63) mod (2 ^ 64 :: int)
          = ((x + 2 ^ 63) mod 2 ^ 64 + y) mod 2 ^ 64"
    by simp
  also have "\<dots> = ((x + 2 ^ 63) + y) mod 2 ^ 64"
    by (rule mod_add_left_eq)
  finally show ?thesis unfolding wrap64_def by (simp add: ac_simps)
qed

subsection \<open>The tracked reader and the speed tracker\<close>

lemma Seek_Some_False: "Seek r offset whence = Some y \<Longrightarrow> False"
  by (rule Seek.raw_induct [where P = "\<lambda>_ _ _ _. False"]) (auto split: Option.bind_splits)

text \<open>
  Claim C8 says that \<^verbatim>\<open>readerWrapper.Seek\<close> terminates, delegates to the wrapped byte source,
  returns the resulting offset and records it in the counter.  The method calls itself
  with its own arguments, so no call returns, for any wrapper, offset and whence.
\<close>

theorem Seek_never_returns: "Seek r offset whence = None"
  using Seek_Some_False [of r offset whence] by (cases "Seek r offset whence") auto

text \<open>The sibling wrapper does what the claim describes.\<close>

lemma Seek_srw_returns:
  "Seek_srw seek r offset whence =
     Some (r\<lparr>bytesdone_srw := fst (seek offset whence)\<rparr>,
           fst (seek offset whence), snd (seek offset whence))"
  by (simp add: Seek_srw_def split: prod.splits)

lemma update_keeps_last:
  "lastDone (fst (update rate avg s b t)) = lastDone s
   \<and> lastTime (fst (update rate avg s b t)) = lastTime s"
  by (simp add: update_def Let_def)

text \<open>
  Claim C7 says that each \<^verbatim>\<open>update\<close> takes the byte delta and the elapsed time since the
  preceding call.  \<^verbatim>\<open>update\<close> never writes \<^verbatim>\<open>lastDone\<close> or \<^verbatim>\<open>lastTime\<close>: for a tracker
  made at time 0 and updated with 100 bytes after one second, the update with 150 bytes
  after two seconds computes its rate from 150 bytes over two seconds, not from 50 bytes
  over one.
\<close>

theorem update_second_tick_uses_totals:
  "update_newBytes (fst (update rate avg (newSpeedTracker 0) 100 1000000000)) 150 = 150
   \<and> update_elapsed (fst (update rate avg (newSpeedTracker 0) 100 1000000000)) 2000000000
       = 2000000000"
  by (simp add: update_def Let_def update_newBytes_def update_elapsed_def newSpeedTracker_def
      wrap64_def)

subsection \<open>The reader: \<^verbatim>\<open>Read\<close> and \<^verbatim>\<open>Close\<close>\<close>








lemma getter0_fields:
  "err getter0 = None" "chunkID getter0 = 0" "rChunk getter0 = None" "contentLen getter0 = 3"
  "bytesRead getter0 = 0" "chunkTotal getter0 = 1" "qWait getter0 = Map.empty"
  "qWaitLen getter0 = 0" "activeChunks getter0 = Map.empty" "sp_give getter0 = []"
  "closed_g getter0 = False" "Md5Check (conf getter0) = False" "cIdx getter0 = 0"
  by (simp_all add: getter0_def conf0_def)











text \<open>
  Claim C3: once the sticky error field holds \<open>e\<close> and the getter is not closed, \<^verbatim>\<open>Read\<close>
  returns \<open>(0, e)\<close> and leaves the getter as it is (so every later \<^verbatim>\<open>Read\<close> does the same),
  and \<^verbatim>\<open>Close\<close> returns \<open>e\<close> without reaching the short-read check or the MD5 request.
\<close>

theorem sticky_error_is_returned:
  assumes "err g = Some e" and "\<not> closed_g g"
  shows "Read g p evs = Return (g, p, 0, Some e, evs)
       \<and> Close E g w = (Return (g\<lparr>closed_g := True, sp_quit := True, quit := True\<rparr>, Some e), w)"
  using assms by (simp add: Read_def Close_def Let_def)

theorem sticky_error_is_returned_witness:
  "err getter0_failed = Some (ErrorString ''test error'') \<and> \<not> closed_g getter0_failed
   \<and> bytesRead getter0_failed \<noteq> contentLen getter0_failed
   \<and> Md5Check (conf getter0_failed)
   \<and> Read getter0_failed [0, 0, 0] [] =
        Return (getter0_failed, [0, 0, 0], 0, Some (ErrorString ''test error''), [])
   \<and> Close env0 getter0_failed [] =
        (Return (getter0_failed\<lparr>closed_g := True, sp_quit := True, quit := True\<rparr>,
           Some (ErrorString ''test error'')), [])"
proof -
  have h: "err getter0_failed = Some (ErrorString ''test error'')" "\<not> closed_g getter0_failed"
    by (simp_all add: getter0_failed_def getter0_fields)
  have "bytesRead getter0_failed \<noteq> contentLen getter0_failed" "Md5Check (conf getter0_failed)"
    by (simp_all add: getter0_failed_def getter0_fields)
  then show ?thesis
    using h sticky_error_is_returned [OF h, of "[0, 0, 0]" "[]" env0 "[]"] by simp
qed

text \<open>
  Claim C4: once \<^verbatim>\<open>Close\<close> has returned, the getter is closed; whatever the sticky error
  was before and whatever it is set to afterwards, every \<^verbatim>\<open>Read\<close> returns \<open>(0, EINVAL)\<close>
  without touching the buffer or the getter, and another \<^verbatim>\<open>Close\<close> returns \<open>EINVAL\<close>.
\<close>

theorem closed_getter_is_invalid:
  assumes "fst (Close E g w) = Return (g1, r)"
  shows "closed_g g1
       \<and> Read (g1\<lparr>err := e'\<rparr>) p evs = Return (g1\<lparr>err := e'\<rparr>, p, 0, Some EINVAL, evs)
       \<and> Close E' (g1\<lparr>err := e'\<rparr>) w' = (Return (g1\<lparr>err := e'\<rparr>, Some EINVAL), w')"
proof -
  have c: "closed_g g1"
  proof (cases "closed_g g")
    case True
    then show ?thesis using assms by (simp add: Close_def)
  next
    case False
    then have "\<exists>x. fst (Close E g w) = Return (g\<lparr>closed_g := True, sp_quit := True, quit := True\<rparr>, x)
                 \<or> fst (Close E g w) = Blocked \<or> (\<exists>m. fst (Close E g w) = Panic m)"
      by (auto simp: Close_def Let_def split: option.splits prod.splits result.splits)
    then show ?thesis using assms by auto
  qed
  then show ?thesis by (simp add: Read_def Close_def)
qed

theorem closed_getter_is_invalid_witness:
  "fst (Close env0 getter0_failed []) =
     Return (getter0_failed\<lparr>closed_g := True, sp_quit := True, quit := True\<rparr>,
       Some (ErrorString ''test error''))
   \<and> Read (getter0_failed\<lparr>closed_g := True, sp_quit := True, quit := True, err := Some ErrStopped\<rparr>)
        [0, 0, 0] [] =
       Return (getter0_failed\<lparr>closed_g := True, sp_quit := True, quit := True,
         err := Some ErrStopped\<rparr>, [0, 0, 0], 0, Some EINVAL, [])
   \<and> Close env0 (getter0_failed\<lparr>closed_g := True, sp_quit := True, quit := True,
        err := Some ErrStopped\<rparr>) [] =
       (Return (getter0_failed\<lparr>closed_g := True, sp_quit := True, quit := True,
          err := Some ErrStopped\<rparr>, Some EINVAL), [])"
proof -
  have h: "fst (Close env0 getter0_failed []) =
     Return (getter0_failed\<lparr>closed_g := True, sp_quit := True, quit := True\<rparr>,
       Some (ErrorString ''test error''))"
    by (simp add: Close_def Let_def getter0_failed_def getter0_fields)
  show ?thesis
    using h closed_getter_is_invalid [OF h, of "Some ErrStopped" "[0, 0, 0]" "[]" env0 "[]"]
    by simp
qed

subsection \<open>Entry points and the region\<close>

text \<open>
  Claim C9: for the empty path \<^verbatim>\<open>GetReader\<close> and \<^verbatim>\<open>GetAsync\<close> return the error
  \<open>empty path requested\<close> at once: the log of effects is returned as it was, so no HTTP
  request has been issued, no worker started and no buffer pool allocated.
\<close>

theorem empty_path_is_refused:
  "GetReader E [] c w = (Return (Inl empty_path), w)
   \<and> GetAsync E [] c w = (Return (Inl empty_path), w)
   \<and> Error empty_path = ''empty path requested''"
  by (simp add: GetReader_def GetAsync_def empty_path_def)

text \<open>For comparison, a request for a key does reach the server and start the pipeline.\<close>

lemma GetReader_env0_effects:
  "snd (GetReader env0 ''k'' None []) =
     [HttpDo ''GET'' ''https://b.s3.amazonaws.com/k'', BufferPool 3, GoWorker, GoWorker,
      GoInitChunks]"
  by (simp add: GetReader_def env0_def newGetter_def retryRequest_def conf0_def max_int_def
      max64_def response0_def Let_def numeral_2_eq_2)

lemma FindStringSubmatch_accelerate:
  "regionMatcher_FindStringSubmatch ''s3-accelerate.amazonaws.com''
     = [''s3-accelerate.amazonaws.com'', ''accelerate'', []]"
  by code_simp

lemma FindStringSubmatch_sa_east_1:
  "regionMatcher_FindStringSubmatch ''s3-sa-east-1.amazonaws.com''
     = [''s3-sa-east-1.amazonaws.com'', ''sa-east-1'', []]"
  by code_simp

lemma FindStringSubmatch_example:
  "regionMatcher_FindStringSubmatch ''example.com'' = []"
  by code_simp

text \<open>
  Claim C10, as amended: \<^verbatim>\<open>Region\<close> panics with \<open>can't find endpoint region\<close> exactly when
  \<^verbatim>\<open>AWS_REGION\<close> is empty and the domain either is \<^verbatim>\<open>s3-accelerate.amazonaws.com\<close>, or is
  neither \<^verbatim>\<open>s3.amazonaws.com\<close> nor \<^verbatim>\<open>s3-external-1.amazonaws.com\<close> and does not match the
  region pattern; in every other case it returns a region.
\<close>

theorem Region_panics_exactly_when:
  "(AWS_REGION = [] \<and>
      (domain = ''s3-accelerate.amazonaws.com'' \<or>
       (domain \<noteq> ''s3.amazonaws.com'' \<and> domain \<noteq> ''s3-external-1.amazonaws.com''
        \<and> length (regionMatcher_FindStringSubmatch domain) < 2))
      \<longrightarrow> Region domain AWS_REGION = Panic no_region)
   \<and> (\<not> (AWS_REGION = [] \<and>
      (domain = ''s3-accelerate.amazonaws.com'' \<or>
       (domain \<noteq> ''s3.amazonaws.com'' \<and> domain \<noteq> ''s3-external-1.amazonaws.com''
        \<and> length (regionMatcher_FindStringSubmatch domain) < 2)))
      \<longrightarrow> (\<exists>r. Region domain AWS_REGION = Return r))"
  by (simp add: Region_def Let_def)

theorem Region_panics_exactly_when_witness:
  "Region ''example.com'' [] = Panic no_region
   \<and> (\<exists>r. Region ''s3-sa-east-1.amazonaws.com'' [] = Return r)
   \<and> (\<exists>r. Region ''example.com'' ''eu-west-1'' = Return r)"
  using Region_panics_exactly_when [of "[]" "''example.com''"]
    Region_panics_exactly_when [of "[]" "''s3-sa-east-1.amazonaws.com''"]
    Region_panics_exactly_when [of "''eu-west-1''" "''example.com''"]
  by (simp add: FindStringSubmatch_example FindStringSubmatch_sa_east_1)

text \<open>
  The claim as stated fails at the accelerate endpoint: it is one of the endpoints the
  \<^verbatim>\<open>switch\<close> names, and it matches the region pattern too, yet with \<^verbatim>\<open>AWS_REGION\<close> unset
  \<^verbatim>\<open>Region\<close> panics.
\<close>

theorem Region_accelerate_panics:
  "Region ''s3-accelerate.amazonaws.com'' [] = Panic no_region
   \<and> length (regionMatcher_FindStringSubmatch ''s3-accelerate.amazonaws.com'') = 3"
  by (simp add: Region_def FindStringSubmatch_accelerate)

subsection \<open>Stopping an upload\<close>

lemma PutController_Stop_in_progress:
  assumes "reason (tomb pc) = Some ErrStillAlive" and "alive (tomb pc) = 1" and "\<not> dead (tomb pc)"
  shows "\<exists>pc'. PutController_Stop pc = Return (pc', Some ErrStopped)
           \<and> State pc' = ''Stopped'' \<and> Reason pc' = Reason pc"
  using assms
  by (simp add: PutController_Stop_def PutController_supervisor_def PutController_loop_dying_def
      tomb_Kill_def tomb_Err_def tomb_run_exit_def tomb_Wait_def Let_def)

lemma PutController_Stop_rev0_in_progress:
  assumes "reason (tomb pc) = Some ErrStillAlive" and "alive (tomb pc) = 1" and "\<not> dead (tomb pc)"
  shows "\<exists>pc'. PutController_Stop_rev0 pc = Return (pc', Some ErrStopped)
           \<and> State pc' = ''Failed'' \<and> Reason pc' = ''Stopped''"
  using assms
  by (simp add: PutController_Stop_rev0_def PutController_supervisor_rev0_def
      PutController_loop_dying_rev0_def tomb_Kill_def tomb_run_exit_def tomb_Wait_def Let_def)

text \<open>
  Claim C6 says that \<^verbatim>\<open>Stop\<close>, called while the upload is in progress, leaves \<open>State\<close> equal
  to \<open>Failed\<close> and \<open>Reason\<close> equal to \<open>Stopped\<close>.  In the current revision \<^verbatim>\<open>Stop\<close> assigns
  neither field: the supervising loop sets \<open>State\<close> to \<open>Stopped\<close>, and \<open>Reason\<close> stays
  empty.
\<close>

theorem PutController_Stop_leaves_Stopped:
  "\<exists>pc'. PutController_Stop pc_uploading = Return (pc', Some ErrStopped)
     \<and> State pc' = ''Stopped'' \<and> Reason pc' = []"
  by (simp add: PutController_Stop_def PutController_supervisor_def PutController_loop_dying_def
      tomb_Kill_def tomb_Err_def tomb_run_exit_def tomb_Wait_def Let_def pc_uploading_def
      tomb_Go_def tomb_new_def)

text \<open>The earlier revision of \<^verbatim>\<open>Stop\<close> does what the claim says, on the same controller.\<close>

lemma PutController_Stop_rev0_leaves_Failed:
  "\<exists>pc'. PutController_Stop_rev0 pc_uploading = Return (pc', Some ErrStopped)
     \<and> State pc' = ''Failed'' \<and> Reason pc' = ''Stopped''"
  by (simp add: PutController_Stop_rev0_def PutController_supervisor_rev0_def
      PutController_loop_dying_rev0_def tomb_Kill_def tomb_run_exit_def tomb_Wait_def Let_def
      pc_uploading_def tomb_Go_def tomb_new_def)

subsection \<open>Chunks: \<^verbatim>\<open>newGetter\<close> and \<^verbatim>\<open>initChunks\<close>\<close>

lemma ceil_div_facts:
  fixes L P :: int
  assumes "1 \<le> P" and "0 \<le> L"
  defines "c \<equiv> (L + P - 1) div P"
  shows "0 \<le> c" and "L \<le> c * P" and "\<And>k. k < c \<Longrightarrow> k * P < L"
proof -
  have P: "0 < P" using assms(1) by simp
  have m: "0 \<le> (L + P - 1) mod P" "(L + P - 1) mod P < P"
    using P by simp_all
  have e: "L + P - 1 = c * P + (L + P - 1) mod P"
    unfolding c_def by simp
  show "0 \<le> c" unfolding c_def using assms P by (simp add: pos_imp_zdiv_nonneg_iff)
  show "L \<le> c * P" using e m by linarith
  fix k assume "k < c"
  then have "k + 1 \<le> c" by simp
  then have "(k + 1) * P \<le> c * P" using P by (simp add: mult_right_mono)
  then have "k * P + P \<le> c * P" by (simp add: algebra_simps)
  then show "k * P < L" using e m by linarith
qed

lemma new_chunk_nth_chunk:
  assumes "0 \<le> i" and "1 \<le> sz" and "i + sz < 2 ^ 63"
    and "i = int k * P" and "sz = min P (L - int k * P)"
  shows "new_chunk (int k) i sz = nth_chunk P L k"
proof -
  have "is_int64 (i + sz)" "is_int64 (i + sz - 1)"
    using assms(1,2,3) by (simp_all add: is_int64_def)
  then show ?thesis
    using assms(4,5) by (simp add: new_chunk_def nth_chunk_def Range_header_def wrap64_id)
qed

lemma initChunks_loop_from:
  assumes P: "1 \<le> bufsz g" and L: "0 \<le> contentLen g" "is_int64 (contentLen g)"
    and n: "n = nat ((contentLen g + bufsz g - 1) div bufsz g)" and k: "k \<le> n"
  shows "initChunks_loop g (min (int k * bufsz g) (contentLen g)) (int k)
           = Some (map (nth_chunk (bufsz g) (contentLen g)) [k..<n])"
  using k
proof (induction "n - k" arbitrary: k)
  case 0
  then have kn: "k = n" by simp
  have "contentLen g \<le> int n * bufsz g"
    using ceil_div_facts(1,2) [OF P L(1)] n by simp
  then have "min (int k * bufsz g) (contentLen g) = contentLen g"
    using kn by simp
  then show ?case using kn by (subst initChunks_loop.simps) simp
next
  case (Suc m)
  then have kn: "k < n" by simp
  define i where "i = int k * bufsz g"
  have c: "int k < (contentLen g + bufsz g - 1) div bufsz g"
    using kn n by linarith
  have iL: "i < contentLen g"
    unfolding i_def using ceil_div_facts(3) [OF P L(1) c] .
  have i0: "0 \<le> i" unfolding i_def using P by simp
  define sz where "sz = min (bufsz g) (contentLen g - i)"
  have sz1: "1 \<le> sz" using P iL by (simp add: sz_def)
  have isz: "i + sz \<le> contentLen g" by (simp add: sz_def)
  have L63: "contentLen g < 2 ^ 63" using L(2) by (simp add: is_int64_def)
  have w1: "wrap64 (contentLen g - i) = contentLen g - i"
    using iL i0 L63 by (intro wrap64_id) (simp add: is_int64_def)
  have m64: "min64 (bufsz g) (contentLen g - i) = sz"
    by (simp add: min64_def sz_def min_def)
  have w2: "wrap64 (i + sz) = i + sz"
    using i0 sz1 isz L63 by (intro wrap64_id) (simp add: is_int64_def)
  have kL: "int k < contentLen g"
  proof -
    have "int k * 1 \<le> int k * bufsz g" using P by (intro mult_left_mono) simp_all
    then show ?thesis using iL by (simp add: i_def)
  qed
  have w3: "wrap64 (int k + 1) = int k + 1"
    using kL L63 by (intro wrap64_id) (simp add: is_int64_def)
  have nxt: "i + sz = min (int (Suc k) * bufsz g) (contentLen g)"
    by (simp add: sz_def i_def algebra_simps min_def)
  have mi: "min (int k * bufsz g) (contentLen g) = i"
    using iL by (simp add: i_def)
  have ih: "initChunks_loop g (i + sz) (int k + 1)
              = Some (map (nth_chunk (bufsz g) (contentLen g)) [Suc k..<n])"
    using Suc(1) [of "Suc k"] Suc(2) kn nxt by (simp add: algebra_simps)
  have ch: "new_chunk (int k) i sz = nth_chunk (bufsz g) (contentLen g) k"
    using new_chunk_nth_chunk [OF i0 sz1 _ i_def, of "contentLen g"] isz L63
    by (simp add: sz_def i_def)
  have "initChunks_loop g i (int k)
          = Some (nth_chunk (bufsz g) (contentLen g) k
                  # map (nth_chunk (bufsz g) (contentLen g)) [Suc k..<n])"
    by (subst initChunks_loop.simps) (simp add: iL w1 m64 w2 w3 ih ch)
  then show ?case using kn mi by (simp add: upt_conv_Cons)
qed

lemma ceiling_div:
  fixes L P :: int
  assumes "1 \<le> P"
  shows "\<lceil>real_of_int L / real_of_int P\<rceil> = (L + P - 1) div P"
proof -
  have "\<lceil>real_of_int L / real_of_int P\<rceil> = - ((- L) div P)"
    by (simp add: ceiling_divide_eq_div)
  also have "\<dots> = (L + P - 1) div P"
  proof -
    have P: "0 < P" using assms by simp
    define q where "q = (L + P - 1) div P"
    define r where "r = (L + P - 1) mod P"
    have e: "L + P - 1 = q * P + r" and r: "0 \<le> r" "r < P"
      unfolding q_def r_def using P by simp_all
    have "- L = (- q) * P + (P - 1 - r)" using e by (simp add: algebra_simps)
    moreover have "0 \<le> P - 1 - r" "P - 1 - r < P" using r by simp_all
    ultimately have "(- L) div P = - q"
      by (metis div_mult_self1 add.commute div_pos_pos_trivial P less_irrefl add.right_neutral mult.commute)
    then show ?thesis by (simp add: q_def)
  qed
  finally show ?thesis .
qed

lemma newGetter_Return:
  assumes "newGetter E u c w = (Return (Inr (g, h)), w')"
  shows "bufsz g = max64 (PartSize c) 1 \<and> chunkTotal g = chunkTotal_of (contentLen g) (bufsz g)
         \<and> chunkID g = 0 \<and> bytesRead g = 0 \<and> err g = None \<and> \<not> closed_g g
         \<and> qWait g = Map.empty \<and> qWaitLen g = 0"
proof -
  obtain r e w1 where rr: "retryRequest E (max_int (NTry c) 1) ''GET'' u w = ((r, e), w1)"
    by (metis surj_pair)
  show ?thesis
    using assms rr by (cases r; cases e) (auto simp: newGetter_def Let_def split: if_splits)
qed

lemma chunkTotal_of_in_range:
  assumes "1 \<le> P" and "0 \<le> L" and "L + P - 1 < 2 ^ 63"
  shows "chunkTotal_of L P = (L + P - 1) div P"
proof -
  have "is_int64 (L + P - 1)"
    using assms by (simp add: is_int64_def)
  then have a: "wrap64 (wrap64 (L + P) - 1) = L + P - 1"
    using wrap64_wrap64_add [of "L + P" "- 1"] by (simp add: wrap64_id)
  have q0: "0 \<le> (L + P - 1) div P"
    using assms by (simp add: pos_imp_zdiv_nonneg_iff)
  have "(L + P - 1) div P \<le> (L + P - 1) div 1"
    using assms by (intro zdiv_mono2) simp_all
  then have b: "is_int64 ((L + P - 1) div P)"
    using q0 assms(3) by (simp add: is_int64_def)
  have "sgn (L + P - 1) * sgn P * (\<bar>L + P - 1\<bar> div \<bar>P\<bar>) = (L + P - 1) div P"
  proof (cases "L + P - 1 = 0")
    case True
    then show ?thesis by simp
  next
    case False
    then have "0 < L + P - 1" using assms by simp
    then show ?thesis using assms(1) by (simp add: sgn_if)
  qed
  then show ?thesis
    using a b by (simp add: chunkTotal_of_def quo64_def wrap64_id)
qed


text \<open>
  Whatever \<^verbatim>\<open>chunkTotal\<close> holds, the dispatcher enumerates the chunks of the specification:
  ids \<open>0, 1, \<dots>\<close> in order, \<open>\<lceil>L / P\<rceil>\<close> of them.
\<close>

lemma initChunks_enumerates:
  assumes "newGetter E u c w = (Return (Inr (g, h)), w')"
    and "0 \<le> contentLen g" and "is_int64 (contentLen g)"
  shows "initChunks g =
    Some (map (nth_chunk (bufsz g) (contentLen g))
      [0..<nat \<lceil>real_of_int (contentLen g) / real_of_int (bufsz g)\<rceil>])"
proof -
  have P: "1 \<le> bufsz g"
    using newGetter_Return [OF assms(1)] by (simp add: max64_def)
  show ?thesis
    using initChunks_loop_from [OF P assms(2,3) refl, of 0] ceiling_div [OF P, of "contentLen g"]
      assms(2) by (simp add: initChunks_def min_def)
qed

lemma nth_chunk_ranges:
  assumes "1 \<le> P" and "1 \<le> L" and "n = nat ((L + P - 1) div P)"
  shows "c_start (nth_chunk P L 0) = 0"
    and "Suc k < n \<Longrightarrow>
           c_start (nth_chunk P L (Suc k)) = c_start (nth_chunk P L k) + c_size (nth_chunk P L k)"
    and "k < n \<Longrightarrow> 1 \<le> c_size (nth_chunk P L k)"
    and "0 < n"
    and "c_start (nth_chunk P L (n - 1)) + c_size (nth_chunk P L (n - 1)) = L"
proof -
  have L0: "0 \<le> L" using assms(2) by simp
  note f = ceil_div_facts [OF assms(1) L0]
  show "c_start (nth_chunk P L 0) = 0" by (simp add: nth_chunk_def)
  show n0: "0 < n"
  proof (rule ccontr)
    assume "\<not> 0 < n"
    then have "(L + P - 1) div P \<le> 0" using assms(3) by simp
    then have "((L + P - 1) div P) * P \<le> 0 * P"
      using assms(1) by (intro mult_right_mono) simp_all
    then show False using f(2) assms(2) by simp
  qed
  have lt: "\<And>j. j < n \<Longrightarrow> int j * P < L"
    using f(3) assms(3) by (metis f(1) int_nat_eq of_nat_less_iff)
  show "k < n \<Longrightarrow> 1 \<le> c_size (nth_chunk P L k)"
    using lt [of k] assms(1) by (simp add: nth_chunk_def)
  show "Suc k < n \<Longrightarrow>
           c_start (nth_chunk P L (Suc k)) = c_start (nth_chunk P L k) + c_size (nth_chunk P L k)"
    using lt [of "Suc k"] by (simp add: nth_chunk_def algebra_simps min_def)
  have "L \<le> int n * P" using f(1,2) assms(3) by simp
  then have "L - int (n - 1) * P \<le> P"
    using n0 by (simp add: algebra_simps of_nat_diff)
  then show "c_start (nth_chunk P L (n - 1)) + c_size (nth_chunk P L (n - 1)) = L"
    by (simp add: nth_chunk_def min_def)
qed

text \<open>
  Where \<open>contentLen + bufsz - 1\<close> fits an \<^verbatim>\<open>int64\<close>, \<^verbatim>\<open>chunkTotal\<close> is the rounded-up quotient
  and counts the chunks the dispatcher hands out.
\<close>

lemma getter_chunks_in_range:
  assumes "newGetter E u c w = (Return (Inr (g, h)), w')"
    and "1 \<le> contentLen g" and "contentLen g + bufsz g - 1 < 2 ^ 63"
  shows "1 \<le> bufsz g"
    and "chunkTotal g = \<lceil>real_of_int (contentLen g) / real_of_int (bufsz g)\<rceil>"
    and "initChunks g =
           Some (map (nth_chunk (bufsz g) (contentLen g)) [0..<nat (chunkTotal g)])"
proof -
  show P: "1 \<le> bufsz g"
    using newGetter_Return [OF assms(1)] by (simp add: max64_def)
  have L: "0 \<le> contentLen g" "is_int64 (contentLen g)"
    using assms(2,3) P by (simp_all add: is_int64_def)
  have "chunkTotal g = (contentLen g + bufsz g - 1) div bufsz g"
    using newGetter_Return [OF assms(1)] chunkTotal_of_in_range [OF P L(1) assms(3)] by simp
  then show ct: "chunkTotal g = \<lceil>real_of_int (contentLen g) / real_of_int (bufsz g)\<rceil>"
    using ceiling_div [OF P, of "contentLen g"] by simp
  show "initChunks g =
           Some (map (nth_chunk (bufsz g) (contentLen g)) [0..<nat (chunkTotal g)])"
    using initChunks_enumerates [OF assms(1) L] ct by simp
qed

text \<open>
  Claim C2 says that for every \<open>L \<ge> 1\<close> and \<open>P \<ge> 1\<close> the getter computes
  \<open>chunk_total = \<lceil>L / P\<rceil>\<close>.  The sum \<open>contentLen + bufsz - 1\<close> of line 208 wraps when it
  passes \<open>2^63 - 1\<close>: for a response announcing \<open>2^63 - 1\<close> bytes, read with the default
  part size, \<^verbatim>\<open>newGetter\<close> stores a negative \<^verbatim>\<open>chunkTotal\<close>, where the rounded-up quotient
  is 439804651111.
\<close>

theorem newGetter_chunkTotal_overflows:
  "\<exists>g h w. newGetter env_huge ''https://b.s3.amazonaws.com/k'' conf_default []
              = (Return (Inr (g, h)), w)
     \<and> contentLen g = 9223372036854775807 \<and> bufsz g = 20971520
     \<and> chunkTotal g = - 439804651109
     \<and> \<lceil>real_of_int (contentLen g) / real_of_int (bufsz g)\<rceil> = 439804651111"
proof -
  have ov: "chunkTotal_of 9223372036854775807 20971520 = - 439804651109"
    by (simp add: chunkTotal_of_def quo64_def wrap64_def)
  have cl: "\<lceil>real_of_int 9223372036854775807 / real_of_int 20971520\<rceil> = (439804651111::int)"
    by (simp add: ceiling_divide_eq_div)
  show ?thesis
    by (simp add: newGetter_def env_huge_def env0_def conf_default_def retryRequest_def
        max_int_def max64_def response0_def Let_def ov cl eval_nat_numeral)
qed

subsection \<open>The reassembly queue under interleaving\<close>

lemma at_gate_le: "at_gate ws \<le> length ws"
  by (simp add: at_gate_def)

lemma at_gate_update:
  "i < length ws \<Longrightarrow>
     at_gate (ws[i := w]) + (if ws ! i = WGate then 1 else 0)
       = at_gate ws + (if w = WGate then 1 else 0)"
proof (induction ws arbitrary: i)
  case Nil
  then show ?case by simp
next
  case (Cons x xs)
  show ?case
  proof (cases i)
    case 0
    then show ?thesis by (simp add: at_gate_def)
  next
    case (Suc j)
    then have "j < length xs" using Cons.prems by simp
    from Cons.IH [OF this, unfolded at_gate_def] Suc show ?thesis
      by (cases "x = WGate") (auto simp: at_gate_def split: if_splits)
  qed
qed

lemma uint_inc_eq: "n + 1 < 2 ^ 64 \<Longrightarrow> uint_inc n = n + 1"
  by (simp add: uint_inc_def)

lemma uint_dec_eq: "0 < n \<Longrightarrow> n < 2 ^ 64 \<Longrightarrow> uint_dec n = n - 1"
proof -
  assume a: "0 < n" "n < 2 ^ 64"
  then have "n + 2 ^ 64 - 1 = (n - 1) + 1 * 2 ^ 64" by simp
  then have "(n + 2 ^ 64 - 1) mod 2 ^ 64 = (n - 1) mod 2 ^ 64"
    by (metis mod_mult_self1)
  then show ?thesis using a by (simp add: uint_dec_def)
qed

lemma card_dom_upd_le:
  "finite (dom m) \<Longrightarrow> card (dom (m(k \<mapsto> v))) \<le> Suc (card (dom m))"
  by (simp add: card_insert_if)

lemma card_dom_delete:
  "finite (dom m) \<Longrightarrow> m k = Some v \<Longrightarrow> Suc (card (dom (m(k := None)))) = card (dom m)"
proof -
  assume a: "finite (dom m)" "m k = Some v"
  then have "k \<in> dom m" by auto
  then have "card (dom m - {k}) = card (dom m) - 1" "0 < card (dom m)"
    using a(1) by (auto simp: card_gt_0_iff)
  then show ?thesis by simp
qed

lemma step_Dispatch_inv:
  assumes "pipeline_inv n s" and "step s (Dispatch i) = Some s'"
  shows "pipeline_inv n s'"
proof -
  obtain c cs where g: "getCh s = c # cs" and w: "worker_at s i = Some WIdle"
    and s': "s' = s\<lparr>pg := (pg s)\<lparr>activeChunks := (activeChunks (pg s))(c_id c \<mapsto> c)\<rparr>,
                  workers := (workers s)[i := WFetch c], getCh := cs\<rparr>"
    using assms(2) by (auto split: list.splits option.splits wstate.splits)
  have i: "i < length (workers s)" "workers s ! i = WIdle"
    using w by (auto simp: worker_at_def split: if_splits)
  have "at_gate ((workers s)[i := WFetch c]) = at_gate (workers s)"
    using at_gate_update [OF i(1), of "WFetch c"] i(2) by simp
  then show ?thesis
    using assms(1) by (simp add: pipeline_inv_def s' pending_inc_def pending_dec_def)
qed


lemma worker_atD: "worker_at s i = Some w \<Longrightarrow> i < length (workers s) \<and> workers s ! i = w"
  by (auto simp: worker_at_def split: if_splits)

lemma step_Fetched_inv:
  assumes "pipeline_inv n s" and "step s (Fetched i bs) = Some s'"
  shows "pipeline_inv n s'"
proof -
  obtain c where w: "worker_at s i = Some (WFetch c)"
    and s': "s' = s\<lparr>pg := (pg s)\<lparr>activeChunks :=
                              (activeChunks (pg s))(c_id c \<mapsto> fetched c bs)\<rparr>,
                       workers := (workers s)[i := WSend (fetched c bs)]\<rparr>"
    using assms(2) by (auto split: option.splits wstate.splits if_splits)
  note i = worker_atD [OF w]
  have "at_gate ((workers s)[i := WSend (fetched c bs)]) = at_gate (workers s)"
    using at_gate_update [of i "workers s" "WSend (fetched c bs)"] i by simp
  then show ?thesis
    using assms(1) by (simp add: pipeline_inv_def s' pending_inc_def pending_dec_def)
qed

lemma step_GiveUp_inv:
  assumes "pipeline_inv n s" and "step s (GiveUp i e) = Some s'"
  shows "pipeline_inv n s'"
proof -
  obtain c where w: "worker_at s i = Some (WFetch c)"
    and s': "s' = s\<lparr>pg := (if quit (pg s) then pg s else (pg s)\<lparr>err := Some e\<rparr>),
                  workers := (workers s)[i := WIdle]\<rparr>"
    using assms(2) by (auto split: option.splits wstate.splits)
  note i = worker_atD [OF w]
  have "at_gate ((workers s)[i := WIdle]) = at_gate (workers s)"
    using at_gate_update [of i "workers s" WIdle] i by simp
  then show ?thesis
    using assms(1) by (simp add: pipeline_inv_def s' pending_inc_def pending_dec_def)
qed

lemma step_Send_inv:
  assumes "pipeline_inv n s" and "step s (Send i) = Some s'"
  shows "pipeline_inv n s'"
proof -
  obtain c where w: "worker_at s i = Some (WSend c)" and r: "reader s = RNext"
    and s': "s' = s\<lparr>pg := (pg s)\<lparr>qWait := (qWait (pg s))(c_id c \<mapsto> c)\<rparr>,
                       workers := (workers s)[i := WGate], reader := RInc\<rparr>"
    using assms(2) by (auto split: option.splits wstate.splits if_splits)
  note i = worker_atD [OF w]
  have g: "at_gate ((workers s)[i := WGate]) = Suc (at_gate (workers s))"
    using at_gate_update [of i "workers s" WGate] i by simp
  have f: "finite (dom (qWait (pg s)))" using assms(1) by (simp add: pipeline_inv_def)
  have c: "card (dom ((qWait (pg s))(c_id c \<mapsto> c))) \<le> Suc (card (dom (qWait (pg s))))"
    using card_dom_upd_le [OF f] .
  show ?thesis
    using assms(1) g c r by (simp add: pipeline_inv_def s' pending_inc_def pending_dec_def)
qed

lemma step_Inc_inv:
  assumes "pipeline_inv n s" and "n < 2 ^ 63" and "step s Inc = Some s'"
  shows "pipeline_inv n s'"
proof -
  have r: "reader s = RInc"
    and s': "s' = s\<lparr>pg := (pg s)\<lparr>qWaitLen := uint_inc (qWaitLen (pg s))\<rparr>, reader := RNext\<rparr>"
    using assms(3) by (auto split: if_splits)
  have "qWaitLen (pg s) + 1 \<le> qWaitMax + at_gate (workers s)"
    using assms(1) r by (simp add: pipeline_inv_def pending_inc_def)
  also have "\<dots> \<le> 2 + n"
    using at_gate_le [of "workers s"] assms(1) by (simp add: pipeline_inv_def qWaitMax_def)
  also have "\<dots> < 2 ^ 64" using assms(2) by simp
  finally have "uint_inc (qWaitLen (pg s)) = qWaitLen (pg s) + 1"
    by (rule uint_inc_eq)
  then show ?thesis
    using assms(1) r by (simp add: pipeline_inv_def s' pending_inc_def pending_dec_def)
qed

lemma step_Take_inv:
  assumes "pipeline_inv n s" and "step s Take = Some s'"
  shows "pipeline_inv n s'"
proof -
  obtain c where r: "reader s = RNext" and q: "qWait (pg s) (chunkID (pg s)) = Some c"
    and s': "s' = s\<lparr>pg := (pg s)\<lparr>qWait := (qWait (pg s))(chunkID (pg s) := None)\<rparr>,
                     reader := RDec c\<rparr>"
    using assms(2) by (auto split: option.splits if_splits)
  have f: "finite (dom (qWait (pg s)))" using assms(1) by (simp add: pipeline_inv_def)
  have c: "Suc (card (dom ((qWait (pg s))(chunkID (pg s) := None)))) = card (dom (qWait (pg s)))"
    using card_dom_delete [OF f q] .
  show ?thesis
    using assms(1) c r f by (simp add: pipeline_inv_def s' pending_inc_def pending_dec_def)
qed

lemma step_Dec_inv:
  assumes "pipeline_inv n s" and "n < 2 ^ 63" and "step s Dec = Some s'"
  shows "pipeline_inv n s'"
proof -
  obtain c where r: "reader s = RDec c"
    and s': "s' = s\<lparr>pg := (pg s)\<lparr>qWaitLen := uint_dec (qWaitLen (pg s)),
                     md5 := (if Md5Check (conf (pg s))
                             then md5 (pg s) @ take (nat (c_size c)) (c_b c) else md5 (pg s)),
                     rChunk := Some c, cIdx := 0\<rparr>,
                  reader := RCopy\<rparr>"
    using assms(3) by (auto split: rstate.splits)
  have lo: "0 < qWaitLen (pg s)"
    using assms(1) r by (simp add: pipeline_inv_def pending_inc_def pending_dec_def)
  have "qWaitLen (pg s) \<le> qWaitMax + at_gate (workers s)"
    using assms(1) r by (simp add: pipeline_inv_def pending_inc_def)
  also have "\<dots> \<le> 2 + n"
    using at_gate_le [of "workers s"] assms(1) by (simp add: pipeline_inv_def qWaitMax_def)
  also have "\<dots> < 2 ^ 64" using assms(2) by simp
  finally have "uint_dec (qWaitLen (pg s)) = qWaitLen (pg s) - 1"
    using lo by (intro uint_dec_eq)
  then show ?thesis
    using assms(1) r lo by (auto simp: pipeline_inv_def s' pending_inc_def pending_dec_def)
qed

lemma step_Copied_inv:
  assumes "pipeline_inv n s" and "step s Copied = Some s'"
  shows "pipeline_inv n s'"
proof -
  have r: "reader s = RCopy"
    using assms(2) by (cases "reader s") auto
  then obtain c where rc: "rChunk (pg s) = Some c"
    using assms(2) by (cases "rChunk (pg s)") auto
  have s': "s' = s\<lparr>pg := (pg s)\<lparr>cIdx := c_size c,
                     bytesRead := wrap64 (bytesRead (pg s) + c_size c),
                     activeChunks := (activeChunks (pg s))(c_id c := None),
                     sp_give := sp_give (pg s) @ [c_b c],
                     chunkID := chunkID (pg s) + 1,
                     rChunk := None\<rparr>,
                  reader := RNext\<rparr>"
    using assms(2) r rc by simp
  show ?thesis
    using assms(1) r by (simp add: pipeline_inv_def s' pending_inc_def pending_dec_def)
qed

lemma step_Gate_inv:
  assumes "pipeline_inv n s" and "step s (Gate i) = Some s'"
  shows "pipeline_inv n s'"
proof -
  have w: "worker_at s i = Some WGate" and q: "qWaitLen (pg s) < qWaitMax \<or> closed_g (pg s)"
    and s': "s' = s\<lparr>workers := (workers s)[i := WIdle]\<rparr>"
    using assms(2) by (auto split: if_splits)
  note i = worker_atD [OF w]
  have g: "Suc (at_gate ((workers s)[i := WIdle])) = at_gate (workers s)"
    using at_gate_update [of i "workers s" WIdle] i by simp
  have "qWaitLen (pg s) < qWaitMax" using q assms(1) by (simp add: pipeline_inv_def)
  then have "qWaitLen (pg s) + pending_inc s \<le> qWaitMax"
    by (simp add: pending_inc_def qWaitMax_def)
  then show ?thesis
    using assms(1) g by (simp add: pipeline_inv_def s' pending_inc_def pending_dec_def)
qed

lemma step_inv:
  assumes "pipeline_inv n s" and "n < 2 ^ 63" and "step s a = Some s'"
  shows "pipeline_inv n s'"
proof (cases a)
  case (Dispatch i)
  then show ?thesis using step_Dispatch_inv assms by blast
next
  case (Fetched i bs)
  then show ?thesis using step_Fetched_inv assms by blast
next
  case (GiveUp i e)
  then show ?thesis using step_GiveUp_inv assms by blast
next
  case (Send i)
  then show ?thesis using step_Send_inv assms by blast
next
  case Inc
  then show ?thesis using step_Inc_inv assms by blast
next
  case Take
  then show ?thesis using step_Take_inv assms by blast
next
  case Dec
  then show ?thesis using step_Dec_inv assms by blast
next
  case Copied
  then show ?thesis using step_Copied_inv assms by blast
next
  case (Gate i)
  then show ?thesis using step_Gate_inv assms by blast
qed

lemma run_inv:
  "pipeline_inv n s \<Longrightarrow> n < 2 ^ 63 \<Longrightarrow> run s as = Some s' \<Longrightarrow> pipeline_inv n s'"
proof (induction as arbitrary: s)
  case Nil
  then show ?case by simp
next
  case (Cons a as)
  then obtain s1 where s1: "step s a = Some s1" and r: "run s1 as = Some s'"
    by (auto split: option.splits)
  from Cons.IH [OF step_inv [OF Cons.prems(1,2) s1] Cons.prems(2) r] show ?case .
qed

lemma init_inv:
  "\<not> closed_g g \<Longrightarrow> qWait g = Map.empty \<Longrightarrow> qWaitLen g = 0 \<Longrightarrow> pipeline_inv n (init_pipeline g n cs)"
  by (simp add: pipeline_inv_def init_pipeline_def pending_inc_def pending_dec_def)

lemma inv_bounds:
  assumes "pipeline_inv n s"
  shows "qWaitLen (pg s) \<le> n + qWaitMax" and "card (dom (qWait (pg s))) \<le> n + qWaitMax"
proof -
  have a: "qWaitLen (pg s) + pending_inc s \<le> qWaitMax + n"
    using assms at_gate_le [of "workers s"] by (simp add: pipeline_inv_def)
  then show "qWaitLen (pg s) \<le> n + qWaitMax" by simp
  have "card (dom (qWait (pg s))) \<le> qWaitLen (pg s) + pending_inc s"
    using assms by (simp add: pipeline_inv_def)
  then show "card (dom (qWait (pg s))) \<le> n + qWaitMax" using a by simp
qed


lemma getter4_fields:
  "rChunk getter4 = None" "bytesRead getter4 = 0" "contentLen getter4 = 4"
  "chunkID getter4 = 0" "chunkTotal getter4 = 4" "qWait getter4 = Map.empty"
  "qWaitLen getter4 = 0" "closed_g getter4 = False" "quit getter4 = False"
  by (simp_all add: getter4_def getter0_def)

lemma uint_inc_small: "n < 1000 \<Longrightarrow> uint_inc n = Suc n"
  by (simp add: uint_inc_def)

lemma replicate4: "replicate 4 x = [x, x, x, x]"
  by (simp add: numeral_eq_Suc)

lemma slow_first_run:
  "\<exists>s. run (init_pipeline getter4 4 chunks4) slow_first = Some s
     \<and> qWaitLen (pg s) = 3 \<and> dom (qWait (pg s)) = {1, 2, 3}
     \<and> workers s = [WFetch (nth_chunk 1 4 0), WGate, WGate, WGate]"
  by (simp add: slow_first_def init_pipeline_def worker_at_def chunks4_def nth_chunk_def
      reader_waits_def getter4_fields uint_inc_small qWaitMax_def replicate4 insert_commute
      fetched_def)

text \<open>
  Claim C5, as amended: in every state the pipeline of an open getter with \<open>n\<close> workers
  reaches, by any interleaving of dispatcher, worker and reader steps, \<^verbatim>\<open>qWaitLen\<close> and the
  number of chunks in \<^verbatim>\<open>qWait\<close> are at most \<open>n + qWaitMax\<close>; a worker that has handed over
  its chunk is not given another chunk before it has left the gate, and it does not leave
  the gate while \<open>qWaitLen \<ge> qWaitMax\<close>.
\<close>

theorem qWait_bounded_by_workers:
  assumes "\<not> closed_g g" and "qWait g = Map.empty" and "qWaitLen g = 0" and "n < 2 ^ 63"
    and "run (init_pipeline g n cs) as = Some s"
  shows "qWaitLen (pg s) \<le> n + qWaitMax \<and> card (dom (qWait (pg s))) \<le> n + qWaitMax
       \<and> (\<forall>i. worker_at s i = Some WGate \<longrightarrow>
             step s (Dispatch i) = None
             \<and> (qWaitMax \<le> qWaitLen (pg s) \<longrightarrow> step s (Gate i) = None))"
proof -
  have inv: "pipeline_inv n s"
    using run_inv [OF init_inv [OF assms(1,2,3)] assms(4,5)] .
  have "\<not> closed_g (pg s)" using inv by (simp add: pipeline_inv_def)
  then have "\<forall>i. worker_at s i = Some WGate \<longrightarrow>
             step s (Dispatch i) = None
             \<and> (qWaitMax \<le> qWaitLen (pg s) \<longrightarrow> step s (Gate i) = None)"
    by (auto split: list.splits)
  then show ?thesis using inv_bounds [OF inv] by simp
qed

theorem qWait_bounded_by_workers_witness:
  "\<not> closed_g getter4 \<and> qWait getter4 = Map.empty \<and> qWaitLen getter4 = 0 \<and> (4 :: nat) < 2 ^ 63
   \<and> run (init_pipeline getter4 4 chunks4) slow_first \<noteq> None
   \<and> qWaitLen (pg (the (run (init_pipeline getter4 4 chunks4) slow_first))) \<le> 4 + qWaitMax
   \<and> card (dom (qWait (pg (the (run (init_pipeline getter4 4 chunks4) slow_first)))))
        \<le> 4 + qWaitMax
   \<and> worker_at (the (run (init_pipeline getter4 4 chunks4) slow_first)) 1 = Some WGate
   \<and> step (the (run (init_pipeline getter4 4 chunks4) slow_first)) (Dispatch 1) = None
   \<and> step (the (run (init_pipeline getter4 4 chunks4) slow_first)) (Gate 1) = None"
proof -
  obtain s where s: "run (init_pipeline getter4 4 chunks4) slow_first = Some s"
    and q: "qWaitLen (pg s) = 3" and w: "workers s = [WFetch (nth_chunk 1 4 0), WGate, WGate, WGate]"
    using slow_first_run by blast
  have h: "\<not> closed_g getter4" "qWait getter4 = Map.empty" "qWaitLen getter4 = 0"
    "(4 :: nat) < 2 ^ 63"
    by (simp_all add: getter4_fields)
  have g: "worker_at s 1 = Some WGate"
    using w by (simp add: worker_at_def)
  have "qWaitMax \<le> qWaitLen (pg s)" using q by (simp add: qWaitMax_def)
  then show ?thesis
    using qWait_bounded_by_workers [OF h s] h s g by simp
qed

text \<open>
  The claim as stated, a bound of \<open>qWaitMax = 2\<close>, fails: with four workers, while the
  worker fetching chunk 0 is slow, the reader takes the chunks 1, 2 and 3 from the three
  workers waiting to send, and \<^verbatim>\<open>qWait\<close> holds three chunks.
\<close>

theorem qWait_exceeds_qWaitMax:
  "run (init_pipeline getter4 4 chunks4) slow_first \<noteq> None
   \<and> qWaitLen (pg (the (run (init_pipeline getter4 4 chunks4) slow_first))) = 3
   \<and> dom (qWait (pg (the (run (init_pipeline getter4 4 chunks4) slow_first)))) = {1, 2, 3}
   \<and> qWaitMax = 2"
proof -
  obtain s where "run (init_pipeline getter4 4 chunks4) slow_first = Some s"
    and "qWaitLen (pg s) = 3" and "dom (qWait (pg s)) = {1, 2, 3}"
    using slow_first_run by blast
  then show ?thesis by (simp add: qWaitMax_def)
qed

end
